theory Spec2Isabelle
  imports Main "HOL-Library.Sublist" "HOL-Library.Multiset"
begin

section \<open>Exceptions and results\<close>

text \<open>
  A JavaScript exception is a value: the three kinds of error object that the
  program can meet, each with its message.  A computation that may throw returns
  \<open>exn + 'a\<close>, with \<open>Inl\<close> for the thrown error.
\<close>

datatype exn = Error string | TypeError string | SyntaxError string

fun message :: "exn \<Rightarrow> string" where
  "message (Error m) = m"
| "message (TypeError m) = m"
| "message (SyntaxError m) = m"

text \<open>
  \<open>try { body } catch (err) { handler }\<close> over a world \<open>'w\<close> that the body may
  have changed before it threw.
\<close>

definition try_catch ::
  "('w \<Rightarrow> (exn + 'a) \<times> 'w) \<Rightarrow> (exn \<Rightarrow> 'w \<Rightarrow> (exn + 'a) \<times> 'w) \<Rightarrow> 'w \<Rightarrow> (exn + 'a) \<times> 'w" where
  "try_catch body handler w =
     (case body w of
        (Inl err, w') \<Rightarrow> handler err w'
      | (Inr v, w') \<Rightarrow> (Inr v, w'))"

section \<open>Parsed JSON values\<close>

datatype json =
    JNull
  | JBool bool
  | JNum int
  | JStr string
  | JArr "json list"
  | JObj "(string \<times> json) list"

text \<open>
  The values that \<open>JSON.parse\<close> returns.  An object is the list of its own
  properties, each key once, in the order in which the object enumerates them
  (the keys that are array indices in increasing order, then the other keys in
  the order of the text); an array has no holes.

  \<open>Object.values(v)\<close>: throws a TypeError on \<open>null\<close>, and lists the own
  enumerable values of anything else.
\<close>

fun Object_values :: "json \<Rightarrow> exn + json list" where
  "Object_values JNull = Inl (TypeError ''Cannot convert undefined or null to object'')"
| "Object_values (JObj kvs) = Inr (map snd kvs)"
| "Object_values (JArr xs) = Inr xs"
| "Object_values (JStr s) = Inr (map (\<lambda>c. JStr [c]) s)"
| "Object_values (JBool b) = Inr []"
| "Object_values (JNum n) = Inr []"

text \<open>Truthiness: \<open>null\<close>, \<open>false\<close>, \<open>0\<close> and the empty string are falsy.\<close>

fun truthy :: "json \<Rightarrow> bool" where
  "truthy JNull = False"
| "truthy (JBool b) = b"
| "truthy (JNum n) = (n \<noteq> 0)"
| "truthy (JStr s) = (s \<noteq> [])"
| "truthy (JArr xs) = True"
| "truthy (JObj kvs) = True"

text \<open>
  \<open>String(v)\<close> returns a text or throws; the loop of \<open>main\<close> only prints the
  text, so \<open>String_error v\<close> is the exception that \<open>String(v)\<close> throws, if
  any.  A primitive value has a text.  An object is converted by its
  \<open>toString\<close>: a parsed object inherits the one of \<open>Object.prototype\<close>
  unless it has a property \<open>toString\<close> of its own, which is a parsed value
  itself and so not callable; \<open>valueOf\<close> then gives no primitive either, and
  the conversion throws a TypeError.  An array is converted by \<open>join\<close>, which
  converts the elements in turn (\<open>null\<close> is the empty text).
\<close>

fun String_error :: "json \<Rightarrow> exn option"
  and join_error :: "json list \<Rightarrow> exn option" where
  "String_error JNull = None"
| "String_error (JBool b) = None"
| "String_error (JNum n) = None"
| "String_error (JStr s) = None"
| "String_error (JArr xs) = join_error xs"
| "String_error (JObj kvs) =
     (if ''toString'' \<in> fst ` set kvs
      then Some (TypeError ''Cannot convert object to primitive value'')
      else None)"
| "join_error [] = None"
| "join_error (x # xs) =
     (case String_error x of
        Some err \<Rightarrow> Some err
      | None \<Rightarrow> join_error xs)"

section \<open>The tool dispatcher\<close>

text \<open>
  A handler takes the parsed arguments and the world (file system, shell) and
  returns a string or throws; either way the world may have changed.  The table
  \<open>TOOLS\<close> maps the registered names to their handlers.
\<close>

type_synonym 'w handler = "json \<Rightarrow> 'w \<Rightarrow> (exn + string) \<times> 'w"

text \<open>
  \<open>TOOLS\<close> is an object literal, so \<open>TOOLS[name]\<close> also finds what
  \<open>Object.prototype\<close> provides; none of these has a property \<open>fn\<close>.
\<close>

definition Object_prototype_keys :: "string list" where
  "Object_prototype_keys =
     [''constructor'', ''__proto__'', ''hasOwnProperty'', ''isPrototypeOf'',
      ''propertyIsEnumerable'', ''toLocaleString'', ''toString'', ''valueOf'',
      ''__defineGetter__'', ''__defineSetter__'', ''__lookupGetter__'',
      ''__lookupSetter__'']"

text \<open>The error of \<open>TOOLS[name].fn(args)\<close> when \<open>name\<close> is not a registered tool.\<close>

definition unknown_tool :: "string \<Rightarrow> exn" where
  "unknown_tool name =
     (if name \<in> set Object_prototype_keys
      then TypeError ''TOOLS[name].fn is not a function''
      else TypeError (''Cannot read properties of undefined (reading '' @ [CHR 0x27] @ ''fn'' @ [CHR 0x27] @ '')''))"

definition call_fn :: "(string \<rightharpoonup> 'w handler) \<Rightarrow> string \<Rightarrow> json \<Rightarrow> 'w \<Rightarrow> (exn + string) \<times> 'w" where
  "call_fn TOOLS name args w =
     (case TOOLS name of
        None \<Rightarrow> (Inl (unknown_tool name), w)
      | Some fn \<Rightarrow> fn args w)"

definition runTool :: "(string \<rightharpoonup> 'w handler) \<Rightarrow> string \<Rightarrow> json \<Rightarrow> 'w \<Rightarrow> (exn + string) \<times> 'w" where
  "runTool TOOLS name args w =
     try_catch (call_fn TOOLS name args)
       (\<lambda>err w'. (Inr (''error: '' @ message err), w')) w"

section \<open>Tool calls and messages\<close>

record tool_call =
  tc_id :: "string option"
  fn_name :: string
  fn_arguments :: string

datatype msg =
    User_msg string
  | Assistant_msg string "tool_call list option"
  | Tool_msg "string option" string string

text \<open>The tool-call identifiers answered by the tool messages of a history.\<close>

fun answered :: "msg list \<Rightarrow> string option list" where
  "answered [] = []"
| "answered (Tool_msg i n c # ms) = i # answered ms"
| "answered (m # ms) = answered ms"

section \<open>The tool-call assembler\<close>

text \<open>
  One entry of \<open>delta.tool_calls\<close>: its index, and the id, name and arguments
  text it may carry.  One chunk of the stream carries a \<open>delta\<close>.
\<close>

record fragment =
  index :: nat
  frag_id :: "string option"
  frag_name :: "string option"
  frag_arguments :: "string option"

record delta =
  content :: "string option"
  tool_calls :: "fragment list option"

text \<open>
  A JavaScript array.  Only the integers below \<open>4294967295\<close> (that is \<open>2^32 - 1\<close>) are array indices:
  the elements at these are a list of options, a hole being \<open>None\<close>.  Reading
  past the end or in a hole gives \<open>undefined\<close>; writing past the end extends the
  array with holes.  Any other integer is the key of an ordinary property of the
  array object, which can be written and read back but is no element: the
  properties are a map beside the list.  \<open>filter(Boolean)\<close> visits the elements
  only and keeps those that are there, in index order (every element is an
  object, hence truthy).
\<close>

definition array_index :: "nat \<Rightarrow> bool" where
  "array_index i \<longleftrightarrow> i < 4294967295"

type_synonym 'a array = "'a option list \<times> (nat \<rightharpoonup> 'a)"

definition array_get :: "'a array \<Rightarrow> nat \<Rightarrow> 'a option" where
  "array_get arr i =
     (case arr of (xs, props) \<Rightarrow>
        if array_index i then (if i < length xs then xs ! i else None)
        else props i)"

definition array_set :: "'a array \<Rightarrow> nat \<Rightarrow> 'a \<Rightarrow> 'a array" where
  "array_set arr i v =
     (case arr of (xs, props) \<Rightarrow>
        if array_index i then
          (if i < length xs then (xs[i := Some v], props)
           else (xs @ replicate (i - length xs) None @ [Some v], props))
        else (xs, props(i \<mapsto> v)))"

definition filter_Boolean :: "'a array \<Rightarrow> 'a list" where
  "filter_Boolean arr = (case arr of (xs, props) \<Rightarrow> map the (filter (\<lambda>x. x \<noteq> None) xs))"

text \<open>The empty array \<open>[]\<close>.\<close>

definition empty_array :: "'a array" where
  "empty_array = ([], Map.empty)"

text \<open>\<open>if (s) acc += s\<close>: an absent or empty string is falsy.\<close>

definition append_if_truthy :: "string \<Rightarrow> string option \<Rightarrow> string" where
  "append_if_truthy acc s =
     (case s of None \<Rightarrow> acc | Some t \<Rightarrow> if t = [] then acc else acc @ t)"

text \<open>
  The body of \<open>for (const tc of delta.tool_calls)\<close>.  What it does to the slot at
  \<open>tc.index\<close>: an empty slot gets a fresh accumulator with the id of the
  fragment, and the name and the arguments text of the fragment are appended.
\<close>

definition merge_fragment :: "fragment \<Rightarrow> tool_call option \<Rightarrow> tool_call" where
  "merge_fragment tc slot =
     (let acc = (case slot of
                   None \<Rightarrow> \<lparr>tc_id = frag_id tc, fn_name = [], fn_arguments = []\<rparr>
                 | Some a \<Rightarrow> a)
      in acc\<lparr>fn_name := append_if_truthy (fn_name acc) (frag_name tc),
              fn_arguments := append_if_truthy (fn_arguments acc) (frag_arguments tc)\<rparr>)"

definition add_fragment :: "tool_call array \<Rightarrow> fragment \<Rightarrow> tool_call array" where
  "add_fragment toolCalls tc =
     array_set toolCalls (index tc) (merge_fragment tc (array_get toolCalls (index tc)))"

text \<open>The body of \<open>for await (const chunk of callApi(...))\<close>, without the printing.\<close>

definition add_chunk :: "string \<times> tool_call array \<Rightarrow> delta \<Rightarrow> string \<times> tool_call array" where
  "add_chunk st d =
     (case st of (fullContent, toolCalls) \<Rightarrow>
        (append_if_truthy fullContent (content d),
         (case tool_calls d of
            None \<Rightarrow> toolCalls
          | Some tcs \<Rightarrow> foldl add_fragment toolCalls tcs)))"

text \<open>The whole stream, and the compaction \<open>toolCalls.filter(Boolean)\<close> at its end.\<close>

definition assemble :: "delta list \<Rightarrow> string \<times> tool_call list" where
  "assemble chunks =
     (case foldl add_chunk ([], empty_array) chunks of
        (fullContent, toolCalls) \<Rightarrow> (fullContent, filter_Boolean toolCalls))"

text \<open>
  What the specification says of the result.  The fragments of a stream in arrival
  order; the fragments at one index; and the tool call they merge into: the id of
  the first, the names and the argument texts concatenated.
\<close>

definition fragments_of :: "delta list \<Rightarrow> fragment list" where
  "fragments_of chunks =
     concat (map (\<lambda>d. case tool_calls d of None \<Rightarrow> [] | Some tcs \<Rightarrow> tcs) chunks)"

definition text_of :: "string option \<Rightarrow> string" where
  "text_of s = (case s of None \<Rightarrow> [] | Some t \<Rightarrow> t)"

definition merged_at :: "fragment list \<Rightarrow> nat \<Rightarrow> tool_call" where
  "merged_at frags i =
     (let fs = filter (\<lambda>f. index f = i) frags
      in \<lparr>tc_id = frag_id (hd fs),
          fn_name = concat (map (\<lambda>f. text_of (frag_name f)) fs),
          fn_arguments = concat (map (\<lambda>f. text_of (frag_arguments f)) fs)\<rparr>)"

section \<open>Strings\<close>

text \<open>
  A JavaScript string is modelled as a list of characters.  The functions of this
  section are the methods of \<open>String.prototype\<close> that the tools call, on the
  arguments they are called with.
\<close>

definition backslash :: char where "backslash = CHR 0x5C"
definition newline :: char where "newline = CHR 0x0A"

text \<open>\<open>s.includes(sub)\<close>.\<close>

fun includes_str :: "string \<Rightarrow> string \<Rightarrow> bool" where
  "includes_str [] sub = (sub = [])"
| "includes_str (c # s) sub = (prefix sub (c # s) \<or> includes_str s sub)"

text \<open>
  \<open>s.split(sep)\<close> for a string \<open>sep\<close>: the pieces between the occurrences of
  \<open>sep\<close>, found from left to right; an empty \<open>sep\<close> splits into single
  characters.
\<close>

function split_aux :: "string \<Rightarrow> string \<Rightarrow> string \<Rightarrow> string list" where
  "split_aux sep cur [] = [cur]"
| "split_aux sep cur (c # s) =
     (if sep \<noteq> [] \<and> prefix sep (c # s)
      then cur # split_aux sep [] (drop (length sep - 1) s)
      else split_aux sep (cur @ [c]) s)"
  by pat_completeness auto
termination
  by (relation "measure (\<lambda>(sep, cur, s). length s)") auto

definition split_str :: "string \<Rightarrow> string \<Rightarrow> string list" where
  "split_str s sep = (if sep = [] then map (\<lambda>c. [c]) s else split_aux sep [] s)"

text \<open>\<open>xs.join(sep)\<close>.\<close>

fun join_str :: "string list \<Rightarrow> string \<Rightarrow> string" where
  "join_str [] sep = []"
| "join_str [x] sep = x"
| "join_str (x # y # ys) sep = x @ sep @ join_str (y # ys) sep"

text \<open>
  \<open>s.replace(/lit/g, rep)\<close> for a regular expression that matches the non-empty
  text \<open>lit\<close> literally and a replacement without \<open>$\<close>: every occurrence of
  \<open>lit\<close>, found from left to right, each search resuming after the last match.
\<close>

function replace_all :: "string \<Rightarrow> string \<Rightarrow> string \<Rightarrow> string" where
  "replace_all lit rep [] = []"
| "replace_all lit rep (c # s) =
     (if lit \<noteq> [] \<and> prefix lit (c # s)
      then rep @ replace_all lit rep (drop (length lit - 1) s)
      else c # replace_all lit rep s)"
  by pat_completeness auto
termination
  by (relation "measure (\<lambda>(lit, rep, s). length s)") auto

text \<open>
  The replacement text of \<open>s.replace(old, rep)\<close> for a string \<open>old\<close>
  (GetSubstitution without captures): \<open>$$\<close> is a dollar, \<open>$&\<close> the matched
  text, \<open>$`\<close> the text before the match, \<open>$'\<close> the text after it; any other
  character, and a \<open>$\<close> before any other character, stands for itself.
\<close>

fun GetSubstitution :: "string \<Rightarrow> string \<Rightarrow> string \<Rightarrow> string \<Rightarrow> string" where
  "GetSubstitution matched front after [] = []"
| "GetSubstitution matched front after [c] = [c]"
| "GetSubstitution matched front after (c # d # r) =
     (if c = CHR ''$'' then
        (if d = CHR ''$'' then CHR ''$'' # GetSubstitution matched front after r
         else if d = CHR ''&'' then matched @ GetSubstitution matched front after r
         else if d = CHR 0x60 then front @ GetSubstitution matched front after r
         else if d = CHR 0x27 then after @ GetSubstitution matched front after r
         else c # GetSubstitution matched front after (d # r))
      else c # GetSubstitution matched front after (d # r))"

text \<open>
  \<open>s.replace(old, rep)\<close> for a string \<open>old\<close>: the first occurrence of \<open>old\<close>
  is replaced by the substitution; \<open>front\<close> is the text already passed.
\<close>

fun replace_from :: "string \<Rightarrow> string \<Rightarrow> string \<Rightarrow> string \<Rightarrow> string" where
  "replace_from front [] old rep =
     (if old = [] then front @ GetSubstitution old front [] rep else front)"
| "replace_from front (c # s) old rep =
     (if prefix old (c # s)
      then front @ GetSubstitution old front (drop (length old) (c # s)) rep
             @ drop (length old) (c # s)
      else replace_from (front @ [c]) s old rep)"

definition replace_str :: "string \<Rightarrow> string \<Rightarrow> string \<Rightarrow> string" where
  "replace_str s old rep = replace_from [] s old rep"

text \<open>\<open>String(n)\<close> for an integer \<open>n\<close>, and \<open>s.padStart(n)\<close>.\<close>

function digits :: "nat \<Rightarrow> string" where
  "digits n =
     (if n < 10 then [''0123456789'' ! n]
      else digits (n div 10) @ [''0123456789'' ! (n mod 10)])"
  by pat_completeness auto
termination
  by (relation "measure id") auto

declare digits.simps [simp del]

definition String_of :: "int \<Rightarrow> string" where
  "String_of n = (if n < 0 then CHR ''-'' # digits (nat (- n)) else digits (nat n))"

definition padStart :: "string \<Rightarrow> nat \<Rightarrow> string" where
  "padStart s n = replicate (n - length s) CHR '' '' @ s"

text \<open>
  \<open>s.trimEnd()\<close>: white space and line terminators are removed at the end
  (those of them with a code below 256).
\<close>

definition is_space :: "char \<Rightarrow> bool" where
  "is_space c \<longleftrightarrow> c \<in> {CHR 0x09, CHR 0x0A, CHR 0x0B, CHR 0x0C, CHR 0x0D, CHR 0x20, CHR 0xA0}"

definition trimEnd :: "string \<Rightarrow> string" where
  "trimEnd s = rev (dropWhile is_space (rev s))"

text \<open>
  \<open>xs.slice(start, end)\<close>: a negative bound counts from the end, and both are
  clamped to the array.
\<close>

definition slice :: "'a list \<Rightarrow> int \<Rightarrow> int \<Rightarrow> 'a list" where
  "slice xs start fin =
     (let len = int (length xs);
          k = (if start < 0 then max (len + start) 0 else min start len);
          final = (if fin < 0 then max (len + fin) 0 else min fin len)
      in take (nat (final - k)) (drop (nat k) xs))"

section \<open>One round of tool calls\<close>

text \<open>
  \<open>String(Object.values(toolArgs)[0] || "")\<close>, the text printed beside the name
  of the tool: the exception that computing it throws, if any.  \<open>Object.values\<close>
  throws on \<open>null\<close>; the first value, when there is one and it is truthy, is
  converted by \<open>String\<close>.
\<close>

definition argPreview_error :: "json \<Rightarrow> exn option" where
  "argPreview_error toolArgs =
     (case Object_values toolArgs of
        Inl err \<Rightarrow> Some err
      | Inr vs \<Rightarrow>
          (case vs of
             [] \<Rightarrow> None
           | v # rest \<Rightarrow> if truthy v then String_error v else None))"

text \<open>
  The loop \<open>for (const toolCall of toolCalls)\<close> of \<open>main\<close>.  \<open>JSON.parse\<close> is
  the platform's; it is a parameter \<open>parse\<close>.  Nothing in the loop catches, so a
  throw of \<open>JSON.parse\<close>, of \<open>Object.values\<close> or of \<open>String\<close> leaves the loop:
  the result carries the exception that reaches the \<open>catch\<close> of the input
  handler, with the messages and the world as they were at the throw.
\<close>

fun run_tool_calls ::
  "(string \<Rightarrow> exn + json) \<Rightarrow> (string \<rightharpoonup> 'w handler) \<Rightarrow> tool_call list \<Rightarrow> msg list \<Rightarrow> 'w
     \<Rightarrow> exn option \<times> msg list \<times> 'w" where
  "run_tool_calls parse TOOLS [] messages w = (None, messages, w)"
| "run_tool_calls parse TOOLS (toolCall # rest) messages w =
     (case parse (fn_arguments toolCall) of
        Inl err \<Rightarrow> (Some err, messages, w)
      | Inr toolArgs \<Rightarrow>
          (case argPreview_error toolArgs of
             Some err \<Rightarrow> (Some err, messages, w)
           | None \<Rightarrow>
               (case runTool TOOLS (fn_name toolCall) toolArgs w of
                  (Inl err, w') \<Rightarrow> (Some err, messages, w')
                | (Inr result, w') \<Rightarrow>
                    run_tool_calls parse TOOLS rest
                      (messages @ [Tool_msg (tc_id toolCall) (fn_name toolCall) result]) w')))"

text \<open>
  \<open>JSON.parse\<close> on the argument texts of the example rounds below: the text
  \<open>{}\<close> is the empty object, \<open>null\<close> is \<open>null\<close>, the text \<open>toString_text\<close>
  (an object with the key \<open>path\<close>, whose value is an object with the key
  \<open>toString\<close> and the value 1) is that object, and the text \<open>{\<close> is not JSON.
\<close>

definition toString_text :: string where
  "toString_text =
     ''{'' @ [CHR 0x22] @ ''path'' @ [CHR 0x22] @ '':{'' @ [CHR 0x22] @ ''toString'' @ [CHR 0x22] @ '':1}}''"

definition parse_sample :: "string \<Rightarrow> exn + json" where
  "parse_sample s =
     (if s = ''{}'' then Inr (JObj [])
      else if s = ''null'' then Inr JNull
      else if s = toString_text then Inr (JObj [(''path'', JObj [(''toString'', JNum 1)])])
      else Inl (SyntaxError ''Unexpected end of JSON input''))"

definition tools_sample :: "string \<rightharpoonup> unit handler" where
  "tools_sample =
     [''echo'' \<mapsto> (\<lambda>args w. (Inr ''done'', w)),
      ''fail'' \<mapsto> (\<lambda>args w. (Inl (Error ''ENOENT''), w))]"

text \<open>
  What the body of the loop does with a call before it dispatches it: the parsed
  arguments, or the exception that ends the round.
\<close>

definition before_dispatch :: "(string \<Rightarrow> exn + json) \<Rightarrow> tool_call \<Rightarrow> exn + json" where
  "before_dispatch parse toolCall =
     (case parse (fn_arguments toolCall) of
        Inl err \<Rightarrow> Inl err
      | Inr toolArgs \<Rightarrow>
          (case argPreview_error toolArgs of
             Some err \<Rightarrow> Inl err
           | None \<Rightarrow> Inr toolArgs))"

definition dispatched :: "(string \<Rightarrow> exn + json) \<Rightarrow> tool_call \<Rightarrow> bool" where
  "dispatched parse toolCall =
     (case before_dispatch parse toolCall of Inl err \<Rightarrow> False | Inr toolArgs \<Rightarrow> True)"

section \<open>Regular expressions\<close>

text \<open>
  The fragment of \<open>RegExp\<close> that the tools build from their own templates: a
  sequence of single-character atoms, each taken once, under \<open>*\<close> or under
  \<open>+\<close>, between optional anchors.  An atom is a literal character, the dot, or
  the class \<open>[^/]\<close>.
\<close>

datatype atom = Chr char | AnyChar | NotSlash

datatype item = One atom | Star atom | Plus atom

record regex =
  from_start :: bool
  body :: "item list"
  to_end :: bool

text \<open>The syntax characters of a pattern: \<open>^ $ \ . * + ? ( ) [ ] { } |\<close>.\<close>

definition syntax_chars :: "char list" where
  "syntax_chars = backslash # ''^$.*+?()[]{}|''"

text \<open>
  The atom at the head of a pattern text, with the number of characters it takes
  after the first: an escaped syntax character, the dot, the class \<open>[^/]\<close>, or
  a character that is not a syntax character.
\<close>

definition atom_at :: "char \<Rightarrow> string \<Rightarrow> (atom \<times> nat) option" where
  "atom_at c r =
     (if c = backslash then
        (case r of
           [] \<Rightarrow> None
         | d # r' \<Rightarrow> if d \<in> set syntax_chars then Some (Chr d, 1) else None)
      else if c = CHR ''.'' then Some (AnyChar, 0)
      else if c = CHR ''['' then
        (if take 3 r = ''^/]'' then Some (NotSlash, 3) else None)
      else if c \<in> set syntax_chars then None
      else Some (Chr c, 0))"

text \<open>
  The items of a pattern text and whether it ends with the anchor \<open>$\<close>.
  \<open>None\<close>: the text is outside the fragment (it may be a pattern that
  \<open>RegExp\<close> accepts, with a meaning that is not modelled, or one it rejects).
\<close>

function parse_items :: "string \<Rightarrow> (item list \<times> bool) option" where
  "parse_items [] = Some ([], False)"
| "parse_items (c # r) =
     (if c = CHR ''$'' \<and> r = [] then Some ([], True)
      else
        (case atom_at c r of
           None \<Rightarrow> None
         | Some (a, n) \<Rightarrow>
             (case drop n r of
                [] \<Rightarrow> Some ([One a], False)
              | q # r' \<Rightarrow>
                  if q = CHR ''*'' \<or> q = CHR ''+'' then
                    (if r' \<noteq> [] \<and> hd r' \<in> set ''*+?{'' then None
                     else map_option
                            (\<lambda>(is, e). ((if q = CHR ''*'' then Star a else Plus a) # is, e))
                            (parse_items r'))
                  else map_option (\<lambda>(is, e). (One a # is, e)) (parse_items (q # r')))))"
  by pat_completeness auto
termination
proof (relation "measure length")
  show "wf (measure length)" by simp
next
  fix c r x a n q r'
  assume "drop n r = q # r'"
  then have "length (q # r') \<le> length r"
    by (metis length_drop diff_le_self)
  then show "(r', c # r) \<in> measure length" by simp
next
  fix c r x a n q r'
  assume "drop n r = q # r'"
  then have "length (q # r') \<le> length r"
    by (metis length_drop diff_le_self)
  then show "(q # r', c # r) \<in> measure length" by simp
qed

text \<open>\<open>new RegExp(src)\<close>, on the fragment.\<close>

definition RegExp_new :: "string \<Rightarrow> regex option" where
  "RegExp_new src =
     (let start = (src \<noteq> [] \<and> hd src = CHR ''^'')
      in map_option (\<lambda>(is, e). \<lparr>from_start = start, body = is, to_end = e\<rparr>)
           (parse_items (if start then tl src else src)))"

text \<open>
  Matching.  A dot matches any character but a line terminator.  \<open>match_here\<close>
  gives the length of the match that the backtracking matcher finds first at the
  head of the string: a starred atom takes as many characters as it can and
  gives them back one at a time; an atom under \<open>+\<close> is the atom once and then
  starred.
\<close>

fun atom_matches :: "atom \<Rightarrow> char \<Rightarrow> bool" where
  "atom_matches (Chr d) c = (c = d)"
| "atom_matches AnyChar c = (c \<noteq> CHR 0x0A \<and> c \<noteq> CHR 0x0D)"
| "atom_matches NotSlash c = (c \<noteq> CHR ''/'')"

fun match_here :: "item list \<Rightarrow> bool \<Rightarrow> string \<Rightarrow> nat option" where
  "match_here [] e s = (if e \<and> s \<noteq> [] then None else Some 0)"
| "match_here (One a # is) e [] = None"
| "match_here (One a # is) e (c # s) =
     (if atom_matches a c then map_option Suc (match_here is e s) else None)"
| "match_here (Star a # is) e [] = match_here is e []"
| "match_here (Star a # is) e (c # s) =
     (if atom_matches a c then
        (case match_here (Star a # is) e s of
           Some n \<Rightarrow> Some (Suc n)
         | None \<Rightarrow> match_here is e (c # s))
      else match_here is e (c # s))"
| "match_here (Plus a # is) e [] = None"
| "match_here (Plus a # is) e (c # s) =
     (if atom_matches a c then map_option Suc (match_here (Star a # is) e s) else None)"

text \<open>\<open>re.test(s)\<close> for a regular expression without flags.\<close>

fun search :: "item list \<Rightarrow> bool \<Rightarrow> string \<Rightarrow> bool" where
  "search is e [] = (match_here is e [] \<noteq> None)"
| "search is e (c # s) = (match_here is e (c # s) \<noteq> None \<or> search is e s)"

definition test :: "regex \<Rightarrow> string \<Rightarrow> bool" where
  "test re s =
     (if from_start re then match_here (body re) (to_end re) s \<noteq> None
      else search (body re) (to_end re) s)"

text \<open>
  The number of matches of \<open>s.match(re)\<close> for a regular expression with the flag
  \<open>g\<close>: the search resumes after each match, one character further after an
  empty one.
\<close>

function count_matches :: "item list \<Rightarrow> bool \<Rightarrow> string \<Rightarrow> nat" where
  "count_matches is e [] = (if match_here is e [] = None then 0 else 1)"
| "count_matches is e (c # s) =
     (case match_here is e (c # s) of
        None \<Rightarrow> count_matches is e s
      | Some n \<Rightarrow> Suc (count_matches is e (drop (n - 1) s)))"
  by pat_completeness auto
termination
  by (relation "measure (\<lambda>(is, e, s). length s)") auto

definition match_count :: "regex \<Rightarrow> string \<Rightarrow> nat" where
  "match_count re s =
     (if from_start re then (if match_here (body re) (to_end re) s = None then 0 else 1)
      else count_matches (body re) (to_end re) s)"

section \<open>The helpers of the tools\<close>

text \<open>\<open>escapeRegExp\<close>: a backslash before every syntax character.\<close>

definition escapeRegExp :: "string \<Rightarrow> string" where
  "escapeRegExp s = concat (map (\<lambda>c. if c \<in> set syntax_chars then [backslash, c] else [c]) s)"

text \<open>
  \<open>matchPattern\<close> of \<open>vibecode.js\<close>: the text of the regular expression that
  the five replacements make of a glob pattern.
\<close>

definition regexPattern :: "string \<Rightarrow> string" where
  "regexPattern pattern =
     replace_all ''?'' ''.''
       (replace_all ''__DOUBLE_STAR__'' ''.*''
          (replace_all ''*'' ''[^/]*''
             (replace_all ''**'' ''__DOUBLE_STAR__''
                (replace_all ''.'' [backslash, CHR ''.''] pattern))))"

text \<open>The same in the non-streaming variant: four replacements, no placeholder.\<close>

definition regexPattern_nanocode :: "string \<Rightarrow> string" where
  "regexPattern_nanocode pattern =
     replace_all ''?'' ''.''
       (replace_all ''*'' ''[^/]*''
          (replace_all ''**'' ''.*''
             (replace_all ''.'' [backslash, CHR ''.''] pattern)))"

section \<open>The platform's regular expressions as a parameter\<close>

text \<open>
  \<open>glob\<close> and \<open>grep\<close> build regular expressions from texts that the caller
  chooses, so they take the constructor \<open>new RegExp(src)\<close> as a parameter: it
  throws, or returns the test of the expression.  \<open>RegExp_fragment\<close> is the
  constructor on the fragment of the last section, \<open>agrees\<close> says that a
  constructor is that one on the fragment.
\<close>

type_synonym regexp = "string \<Rightarrow> exn + (string \<Rightarrow> bool)"

definition RegExp_fragment :: regexp where
  "RegExp_fragment src =
     (case RegExp_new src of
        None \<Rightarrow> Inl (SyntaxError ''Invalid regular expression'')
      | Some re \<Rightarrow> Inr (test re))"

definition agrees :: "regexp \<Rightarrow> bool" where
  "agrees RegExp \<longleftrightarrow> (\<forall>src re. RegExp_new src = Some re \<longrightarrow> RegExp src = Inr (test re))"

section \<open>The file tools\<close>

text \<open>
  For \<open>read\<close>, \<open>write\<close> and \<open>edit\<close> the file system is a map from paths to
  the text of the file there; \<open>readFileSync\<close> throws where there is none.
\<close>

type_synonym files = "string \<rightharpoonup> string"

definition readFileSync :: "files \<Rightarrow> string \<Rightarrow> exn + string" where
  "readFileSync fs path =
     (case fs path of
        None \<Rightarrow> Inl (Error ''ENOENT: no such file or directory'')
      | Some text \<Rightarrow> Inr text)"

text \<open>\<open>x || d\<close> for an optional number: absent and zero are falsy.\<close>

definition or_default :: "int option \<Rightarrow> int \<Rightarrow> int" where
  "or_default x d = (case x of None \<Rightarrow> d | Some n \<Rightarrow> if n = 0 then d else n)"

definition read :: "files \<Rightarrow> string \<Rightarrow> int option \<Rightarrow> int option \<Rightarrow> exn + string" where
  "read fs path offset limit =
     (case readFileSync fs path of
        Inl err \<Rightarrow> Inl err
      | Inr text \<Rightarrow>
          (let lines = split_str text [newline];
               offset = or_default offset 0;
               limit = or_default limit (int (length lines));
               selected = slice lines offset (offset + limit)
           in Inr (join_str
                     (map (\<lambda>(idx, line). padStart (String_of (offset + int idx + 1)) 4 @ ''| '' @ line)
                        (enumerate 0 selected))
                     [newline])))"

definition write_file :: "files \<Rightarrow> string \<Rightarrow> string \<Rightarrow> (exn + string) \<times> files" where
  "write_file fs path data = (Inr ''ok'', fs(path \<mapsto> data))"

text \<open>
  \<open>edit\<close>.  The regular expression made of \<open>escapeRegExp(old)\<close> is always in
  the fragment (lemma \<open>RegExp_new_escapeRegExp\<close>), so the first case of
  \<open>RegExp_new\<close> never arises.
\<close>

definition edit :: "files \<Rightarrow> string \<Rightarrow> string \<Rightarrow> string \<Rightarrow> bool \<Rightarrow> (exn + string) \<times> files" where
  "edit fs path old newStr all =
     (case readFileSync fs path of
        Inl err \<Rightarrow> (Inl err, fs)
      | Inr text \<Rightarrow>
          if \<not> includes_str text old then (Inr ''error: old_string not found'', fs)
          else
            (case RegExp_new (escapeRegExp old) of
               None \<Rightarrow> (Inl (SyntaxError ''Invalid regular expression''), fs)
             | Some re \<Rightarrow>
                 (let count = match_count re text
                  in if \<not> all \<and> count > 1
                     then (Inr (''error: old_string appears '' @ String_of (int count)
                                  @ '' times, must be unique (use all=true)''), fs)
                     else
                       (let replacement =
                              (if all then join_str (split_str text old) newStr
                               else replace_str text old newStr)
                        in (Inr ''ok'', fs(path \<mapsto> replacement))))))"

section \<open>The search tools\<close>

text \<open>
  For \<open>glob\<close> and \<open>grep\<close> the file system is the tree below the current
  directory.  An entry is a file (with its modification time, and its text unless
  it cannot be read), a directory, a directory that cannot be listed, or an entry
  on which \<open>statSync\<close> throws.  A path is the list of names from the current
  directory: \<open>path.join(dir, file)\<close> appends a name, and \<open>path.relative('.', p)\<close>
  and the text of \<open>p\<close> are the names joined by \<open>/\<close>.
\<close>

datatype node =
    File int "string option"
  | Dir "(string \<times> node) list"
  | Unlistable
  | Broken

fun lookup_node :: "node \<Rightarrow> string list \<Rightarrow> node option" where
  "lookup_node n [] = Some n"
| "lookup_node (Dir entries) (name # rest) =
     (case map_of entries name of None \<Rightarrow> None | Some n \<Rightarrow> lookup_node n rest)"
| "lookup_node n (name # rest) = None"

definition path_text :: "string list \<Rightarrow> string" where
  "path_text p = join_str p ''/''"

text \<open>\<open>matchPattern\<close> of \<open>vibecode.js\<close>.\<close>

definition matchPattern :: "regexp \<Rightarrow> string \<Rightarrow> string \<Rightarrow> exn + bool" where
  "matchPattern RegExp filepath pattern =
     (case RegExp (''^'' @ regexPattern pattern @ ''$'') of
        Inl err \<Rightarrow> Inl err
      | Inr re \<Rightarrow> Inr (re filepath))"

definition matchPattern_nanocode :: "regexp \<Rightarrow> string \<Rightarrow> string \<Rightarrow> exn + bool" where
  "matchPattern_nanocode RegExp filepath pattern =
     (case RegExp (''^'' @ regexPattern_nanocode pattern @ ''$'') of
        Inl err \<Rightarrow> Inl err
      | Inr re \<Rightarrow> Inr (re filepath))"




text \<open>\<open>s || "none"\<close>: the empty string is falsy.\<close>

definition or_none :: "string \<Rightarrow> string" where
  "or_none s = (if s = [] then ''none'' else s)"


text \<open>The function \<open>walk\<close> inside \<open>grep\<close>, in the same way.\<close>

definition grep_file :: "(string \<Rightarrow> bool) \<Rightarrow> string list \<Rightarrow> string \<Rightarrow> string list" where
  "grep_file pattern filepath text =
     map (\<lambda>(idx, line). path_text filepath @ '':'' @ String_of (int idx + 1) @ '':'' @ trimEnd line)
       (filter (\<lambda>(idx, line). pattern line) (enumerate 0 (split_str text [newline])))"

fun grep_entries :: "(string \<Rightarrow> bool) \<Rightarrow> string list \<Rightarrow> (string \<times> node) list
      \<Rightarrow> string list \<Rightarrow> string list"
  and grep_visit :: "(string \<Rightarrow> bool) \<Rightarrow> string list \<Rightarrow> node \<Rightarrow> string list \<Rightarrow> string list" where
  "grep_entries pattern dir [] hits = hits"
| "grep_entries pattern dir ((file, n) # rest) hits =
     grep_entries pattern dir rest (grep_visit pattern (dir @ [file]) n hits)"
| "grep_visit pattern filepath (Dir entries) hits = grep_entries pattern filepath entries hits"
| "grep_visit pattern filepath (File mtime text) hits =
     (case text of
        None \<Rightarrow> hits
      | Some t \<Rightarrow> hits @ grep_file pattern filepath t)"
| "grep_visit pattern filepath Unlistable hits = hits"
| "grep_visit pattern filepath Broken hits = hits"

definition grep_walk :: "(string \<Rightarrow> bool) \<Rightarrow> node \<Rightarrow> string list \<Rightarrow> string list" where
  "grep_walk pattern cwd basePath =
     (case lookup_node cwd basePath of
        Some (Dir entries) \<Rightarrow> grep_entries pattern basePath entries []
      | _ \<Rightarrow> [])"

definition grep :: "regexp \<Rightarrow> node \<Rightarrow> string \<Rightarrow> string list \<Rightarrow> exn + string" where
  "grep RegExp cwd pat basePath =
     (case RegExp pat of
        Inl err \<Rightarrow> Inl err
      | Inr pattern \<Rightarrow>
          Inr (or_none (join_str (take 50 (grep_walk pattern cwd basePath)) [newline])))"

section \<open>The words of the specification\<close>

text \<open>
  The positions at which \<open>old\<close> occurs in a text (the distinct occurrences), and
  the number of occurrences met when the text is scanned from the left and each
  search resumes behind the last occurrence found.
\<close>

definition occurrences :: "string \<Rightarrow> string \<Rightarrow> nat list" where
  "occurrences old s = filter (\<lambda>i. prefix old (drop i s)) [0..<Suc (length s)]"

function count_disjoint :: "string \<Rightarrow> string \<Rightarrow> nat" where
  "count_disjoint old [] = (if old = [] then 1 else 0)"
| "count_disjoint old (c # s) =
     (if prefix old (c # s) then Suc (count_disjoint old (drop (length old - 1) s))
      else count_disjoint old s)"
  by pat_completeness auto
termination
  by (relation "measure (\<lambda>(old, s). length s)") auto

text \<open>
  The indices of the half-open range \<open>[offset, offset + limit)\<close> among \<open>n\<close>
  lines, and line \<open>i\<close> behind its 1-based number, which is padded with blanks on
  the left to four columns and followed by a bar and a blank.
\<close>

definition range_indices :: "nat \<Rightarrow> int \<Rightarrow> int \<Rightarrow> nat list" where
  "range_indices n offset limit =
     filter (\<lambda>i. offset \<le> int i \<and> int i < offset + limit) [0..<n]"

definition numbered :: "string list \<Rightarrow> nat \<Rightarrow> string" where
  "numbered lines i = padStart (String_of (int i + 1)) 4 @ ''| '' @ lines ! i"

text \<open>
  The files below a directory in the order of the walk, each with its path from
  the current directory, its modification time and its text; and the files
  under the base path of a search.
\<close>

fun files_entries :: "string list \<Rightarrow> (string \<times> node) list \<Rightarrow> (string list \<times> int \<times> string option) list"
  and files_node :: "string list \<Rightarrow> node \<Rightarrow> (string list \<times> int \<times> string option) list" where
  "files_entries dir [] = []"
| "files_entries dir ((file, n) # rest) = files_node (dir @ [file]) n @ files_entries dir rest"
| "files_node p (File mtime t) = [(p, mtime, t)]"
| "files_node p (Dir entries) = files_entries p entries"
| "files_node p Unlistable = []"
| "files_node p Broken = []"

definition files_under :: "node \<Rightarrow> string list \<Rightarrow> (string list \<times> int \<times> string option) list" where
  "files_under cwd basePath =
     (case lookup_node cwd basePath of
        Some (Dir entries) \<Rightarrow> files_entries basePath entries
      | _ \<Rightarrow> [])"

text \<open>
  The line of the result of \<open>grep\<close> for line \<open>i\<close> (counted from 0) of a file,
  the lines of one file and of all files that the pattern matches, and the files
  whose path from the current directory matches a glob pattern.
\<close>

definition hit_line :: "string list \<Rightarrow> nat \<Rightarrow> string \<Rightarrow> string" where
  "hit_line p i line = path_text p @ '':'' @ String_of (int i + 1) @ '':'' @ trimEnd line"

definition matching_lines_of :: "(string \<Rightarrow> bool) \<Rightarrow> string list \<times> int \<times> string option \<Rightarrow> string list" where
  "matching_lines_of pattern f =
     (case f of
        (p, mtime, None) \<Rightarrow> []
      | (p, mtime, Some t) \<Rightarrow>
          map (\<lambda>i. hit_line p i (split_str t [newline] ! i))
            (filter (\<lambda>i. pattern (split_str t [newline] ! i))
               [0..<length (split_str t [newline])]))"

definition matching_lines :: "(string \<Rightarrow> bool) \<Rightarrow> node \<Rightarrow> string list \<Rightarrow> string list" where
  "matching_lines pattern cwd basePath =
     concat (map (matching_lines_of pattern) (files_under cwd basePath))"


text \<open>
  A small tree for the examples; and the trees in which no entry has the empty
  name (no file system has one).
\<close>

definition tree_sample :: node where
  "tree_sample =
     Dir [(''b.txt'', File 5 (Some ''x'')),
          (''sub'', Dir [(''a.txt'', File 7 (Some (''hi  '' @ [newline] @ ''ho'')))]),
          (''locked'', Unlistable),
          (''c.txt'', File 9 None)]"

text \<open>A tree with one file of 60 lines \<open>h\<close>, each ended by a newline.\<close>

definition tree_long :: node where
  "tree_long = Dir [(''f'', File 1 (Some (concat (replicate 60 [CHR ''h'', newline]))))]"


text \<open>
  Glob patterns as the specification reads them.  A pattern is a sequence of
  tokens: the dot, \<open>**\<close>, \<open>*\<close>, \<open>?\<close> and literal characters, two stars being
  paired from the left.  A path matches when it is consumed entirely: a literal
  and the dot match themselves, \<open>?\<close> any one character, \<open>*\<close> any sequence
  without a separator, \<open>**\<close> any sequence.
\<close>

datatype token = TDot | TDoubleStar | TStar | TQuestion | TLit char

definition tok :: "char \<Rightarrow> token" where
  "tok c =
     (if c = CHR ''.'' then TDot
      else if c = CHR ''*'' then TStar
      else if c = CHR ''?'' then TQuestion
      else TLit c)"

fun tokens :: "string \<Rightarrow> token list" where
  "tokens [] = []"
| "tokens [c] = [tok c]"
| "tokens (c # d # p) =
     (if c = CHR ''*'' \<and> d = CHR ''*'' then TDoubleStar # tokens p
      else tok c # tokens (d # p))"

fun matches_tokens :: "token list \<Rightarrow> string \<Rightarrow> bool" where
  "matches_tokens [] s = (s = [])"
| "matches_tokens (TDoubleStar # ts) s =
     (\<exists>k \<in> set [0..<Suc (length s)]. matches_tokens ts (drop k s))"
| "matches_tokens (TStar # ts) s =
     (\<exists>k \<in> set [0..<Suc (length s)]. CHR ''/'' \<notin> set (take k s) \<and> matches_tokens ts (drop k s))"
| "matches_tokens (TQuestion # ts) s =
     (case s of [] \<Rightarrow> False | x # s' \<Rightarrow> matches_tokens ts s')"
| "matches_tokens (TDot # ts) s =
     (case s of [] \<Rightarrow> False | x # s' \<Rightarrow> x = CHR ''.'' \<and> matches_tokens ts s')"
| "matches_tokens (TLit c # ts) s =
     (case s of [] \<Rightarrow> False | x # s' \<Rightarrow> x = c \<and> matches_tokens ts s')"

definition glob_match :: "string \<Rightarrow> string \<Rightarrow> bool" where
  "glob_match pattern path = matches_tokens (tokens pattern) path"

text \<open>
  The patterns whose characters other than \<open>.\<close>, \<open>*\<close> and \<open>?\<close> are not
  syntax characters of regular expressions, and the paths without a line
  terminator.
\<close>

definition plain_pattern :: "string \<Rightarrow> bool" where
  "plain_pattern pattern = list_all (\<lambda>c. c \<notin> set (backslash # ''^$+()[]{}|'')) pattern"

definition no_line_terminator :: "string \<Rightarrow> bool" where
  "no_line_terminator s = list_all (\<lambda>c. c \<noteq> CHR 0x0A \<and> c \<noteq> CHR 0x0D) s"

text \<open>
  The text of a token sequence when each kind of token is written in a given
  way, and the item of the regular expression that a token becomes.
\<close>

fun show_token :: "string \<Rightarrow> string \<Rightarrow> string \<Rightarrow> string \<Rightarrow> token \<Rightarrow> string" where
  "show_token dot dstar star q TDot = dot"
| "show_token dot dstar star q TDoubleStar = dstar"
| "show_token dot dstar star q TStar = star"
| "show_token dot dstar star q TQuestion = q"
| "show_token dot dstar star q (TLit c) = [c]"

definition render :: "(token \<Rightarrow> string) \<Rightarrow> token list \<Rightarrow> string" where
  "render f ts = concat (map f ts)"

fun item_of :: "token \<Rightarrow> item" where
  "item_of TDot = One (Chr CHR ''.'')"
| "item_of TDoubleStar = Star AnyChar"
| "item_of TStar = Star NotSlash"
| "item_of TQuestion = One AnyChar"
| "item_of (TLit c) = One (Chr c)"

definition plain_token :: "token \<Rightarrow> bool" where
  "plain_token t = (case t of TLit c \<Rightarrow> c \<notin> set syntax_chars | _ \<Rightarrow> True)"

text \<open>The characters that only a literal token can put at the head of a text.\<close>

definition letter :: "char \<Rightarrow> bool" where
  "letter x \<longleftrightarrow> x \<notin> set (backslash # ''[_.*'')"

section \<open>Evaluation of numbers and expressions\<close>

lemma digits_lt: "n < 10 \<Longrightarrow> digits n = [''0123456789'' ! n]"
  by (simp add: digits.simps)

lemma digits_ge:
  "10 \<le> n \<Longrightarrow> digits n = digits (n div 10) @ [''0123456789'' ! (n mod 10)]"
  by (subst digits.simps) simp

lemmas eval_String = String_of_def digits_lt digits_ge

lemma replicate_numeral: "replicate (numeral k) x = x # replicate (pred_numeral k) x"
  by (simp add: numeral_eq_Suc)

lemmas eval_regexp =
  RegExp_fragment_def RegExp_new_def atom_at_def backslash_def syntax_chars_def test_def

section \<open>Properties of the dispatcher\<close>

lemma runTool_eq:
  "runTool TOOLS name args w =
     (case TOOLS name of
        None \<Rightarrow> (Inr (''error: '' @ message (unknown_tool name)), w)
      | Some fn \<Rightarrow>
          (case fn args w of
             (Inl err, w') \<Rightarrow> (Inr (''error: '' @ message err), w')
           | (Inr r, w') \<Rightarrow> (Inr r, w')))"
  by (simp add: runTool_def try_catch_def call_fn_def split: option.splits prod.splits sum.splits)

text \<open>
  C9. For every table of tools, every name and every argument value, \<open>runTool\<close>
  returns a string and never an exception: a name that is not registered gives a
  text that begins with \<open>error: \<close>, a handler that throws gives \<open>error: \<close>
  followed by the message, and the string of a handler that returns is passed on
  unchanged.
\<close>

theorem runTool_never_throws:
  "(\<exists>s. fst (runTool TOOLS name args w) = Inr s) \<and>
   (TOOLS name = None \<longrightarrow>
      (\<exists>m. fst (runTool TOOLS name args w) = Inr (''error: '' @ m))) \<and>
   (\<forall>fn err. TOOLS name = Some fn \<and> fst (fn args w) = Inl err \<longrightarrow>
      runTool TOOLS name args w = (Inr (''error: '' @ message err), snd (fn args w))) \<and>
   (\<forall>fn r. TOOLS name = Some fn \<and> fst (fn args w) = Inr r \<longrightarrow>
      runTool TOOLS name args w = (Inr r, snd (fn args w)))"
  by (auto simp: runTool_eq split: option.splits prod.splits sum.splits)

theorem runTool_never_throws_witness:
  "fst (runTool tools_sample ''nope'' JNull ()) =
     Inr (''error: Cannot read properties of undefined (reading '' @ [CHR 0x27] @ ''fn'' @ [CHR 0x27] @ '')'') \<and>
   fst (runTool tools_sample ''toString'' JNull ()) =
     Inr ''error: TOOLS[name].fn is not a function'' \<and>
   runTool tools_sample ''fail'' JNull () = (Inr ''error: ENOENT'', ()) \<and>
   runTool tools_sample ''echo'' JNull () = (Inr ''done'', ())"
proof -
  have none: "tools_sample ''nope'' = None" "tools_sample ''toString'' = None"
    by (simp_all add: tools_sample_def)
  have some: "tools_sample ''fail'' = Some (\<lambda>args w. (Inl (Error ''ENOENT''), w))"
    "tools_sample ''echo'' = Some (\<lambda>args w. (Inr ''done'', w))"
    by (simp_all add: tools_sample_def)
  from runTool_never_throws [of tools_sample "''fail''" JNull "()"]
       runTool_never_throws [of tools_sample "''echo''" JNull "()"]
       runTool_never_throws [of tools_sample "''nope''" JNull "()"]
  show ?thesis
    using none some
    by (simp add: runTool_eq unknown_tool_def Object_prototype_keys_def)
qed

section \<open>Properties of a round of tool calls\<close>

lemma run_tool_calls_Cons:
  "run_tool_calls parse TOOLS (toolCall # rest) messages w =
     (case before_dispatch parse toolCall of
        Inl err \<Rightarrow> (Some err, messages, w)
      | Inr toolArgs \<Rightarrow>
          (case runTool TOOLS (fn_name toolCall) toolArgs w of
             (Inl err, w') \<Rightarrow> (Some err, messages, w')
           | (Inr result, w') \<Rightarrow>
               run_tool_calls parse TOOLS rest
                 (messages @ [Tool_msg (tc_id toolCall) (fn_name toolCall) result]) w'))"
  by (simp add: before_dispatch_def split: sum.splits option.splits)

lemma runTool_returns: "\<exists>result w'. runTool TOOLS name args w = (Inr result, w')"
  by (simp add: runTool_eq split: option.splits prod.splits sum.splits)

lemma run_tool_calls_append:
  "run_tool_calls parse TOOLS pre messages w = (None, messages', w') \<Longrightarrow>
   run_tool_calls parse TOOLS (pre @ post) messages w =
     run_tool_calls parse TOOLS post messages' w'"
  by (induction pre arbitrary: messages w) (auto split: sum.splits prod.splits option.splits)

lemma answered_append: "answered (ms @ ns) = answered ms @ answered ns"
  by (induction ms rule: answered.induct) auto

lemma run_tool_calls_answered:
  "run_tool_calls parse TOOLS calls messages w = (None, messages', w') \<Longrightarrow>
   answered messages' = answered messages @ map tc_id calls"
  by (induction calls arbitrary: messages w)
     (auto split: sum.splits prod.splits option.splits simp: answered_append)

text \<open>A round of calls that are all dispatched runs to its end.\<close>

lemma run_tool_calls_dispatched:
  "list_all (dispatched parse) calls \<Longrightarrow>
   \<exists>messages' w'. run_tool_calls parse TOOLS calls messages w = (None, messages', w')"
proof (induction calls arbitrary: messages w)
  case Nil
  then show ?case by simp
next
  case (Cons toolCall rest)
  then obtain toolArgs where args: "before_dispatch parse toolCall = Inr toolArgs"
    by (auto simp: dispatched_def split: sum.splits)
  obtain result w1 where run: "runTool TOOLS (fn_name toolCall) toolArgs w = (Inr result, w1)"
    using runTool_returns [of TOOLS "fn_name toolCall" toolArgs w] by blast
  from Cons.prems have "list_all (dispatched parse) rest"
    by simp
  from Cons.IH [OF this] show ?case
    by (simp only: run_tool_calls_Cons args run sum.case prod.case)
qed

text \<open>The round ends at the first call that is not dispatched.\<close>

lemma run_tool_calls_first_failure:
  assumes "list_all (dispatched parse) pre" and "before_dispatch parse failing = Inl err"
  shows "\<exists>messages' w'.
           run_tool_calls parse TOOLS pre messages w = (None, messages', w') \<and>
           run_tool_calls parse TOOLS (pre @ failing # post) messages w = (Some err, messages', w')"
proof -
  from run_tool_calls_dispatched [OF assms(1), of TOOLS messages w]
  obtain messages' w' where pre: "run_tool_calls parse TOOLS pre messages w = (None, messages', w')"
    by blast
  have "run_tool_calls parse TOOLS (failing # post) messages' w' = (Some err, messages', w')"
    by (simp only: run_tool_calls_Cons assms(2) sum.case)
  with run_tool_calls_append [OF pre, of "failing # post"] pre show ?thesis
    by simp
qed

text \<open>
  C1, as the code has it.  Let the arguments text of some call of a round be not
  valid JSON.  Then the round ends with an exception, at the first call at which
  \<open>JSON.parse\<close> or the computation of the preview throws, and the exception is
  the one thrown there.  The calls before that call, and only they, have run
  and have their tool messages, one each and in order: messages and world are
  those that these calls alone leave.  The malformed call is not among them, so
  neither it nor any call after it is run or answered.
\<close>

theorem malformed_arguments_end_round:
  assumes "bad \<in> set toolCalls" and "parse (fn_arguments bad) = Inl err"
  shows "\<exists>e messages' w'.
           run_tool_calls parse TOOLS toolCalls messages w = (Some e, messages', w') \<and>
           before_dispatch parse (hd (dropWhile (dispatched parse) toolCalls)) = Inl e \<and>
           run_tool_calls parse TOOLS (takeWhile (dispatched parse) toolCalls) messages w =
             (None, messages', w') \<and>
           answered messages' =
             answered messages @ map tc_id (takeWhile (dispatched parse) toolCalls) \<and>
           bad \<in> set (dropWhile (dispatched parse) toolCalls)"
proof -
  let ?pre = "takeWhile (dispatched parse) toolCalls"
  let ?rest = "dropWhile (dispatched parse) toolCalls"
  from assms(2) have bad: "\<not> dispatched parse bad"
    by (simp add: dispatched_def before_dispatch_def)
  with assms(1) have "?rest \<noteq> []"
    by (auto simp: dropWhile_eq_Nil_conv)
  then obtain failing post where rest: "?rest = failing # post"
    by (cases ?rest) auto
  then have "\<not> dispatched parse failing"
    using hd_dropWhile [of "dispatched parse" toolCalls] by auto
  then obtain e where e: "before_dispatch parse failing = Inl e"
    by (auto simp: dispatched_def split: sum.splits)
  have split: "toolCalls = ?pre @ failing # post"
    using takeWhile_dropWhile_id [of "dispatched parse" toolCalls] rest by simp
  have pre: "list_all (dispatched parse) ?pre"
    by (auto simp: list_all_iff dest: set_takeWhileD)
  with bad have "bad \<notin> set ?pre"
    by (auto simp: list_all_iff)
  with assms(1) split have in_rest: "bad \<in> set ?rest"
    by (metis Un_iff rest set_append)
  from run_tool_calls_first_failure [OF pre e, of TOOLS messages w post]
  obtain messages' w' where
    run: "run_tool_calls parse TOOLS ?pre messages w = (None, messages', w')"
      "run_tool_calls parse TOOLS (?pre @ failing # post) messages w = (Some e, messages', w')"
    by blast
  from run(2) split have whole: "run_tool_calls parse TOOLS toolCalls messages w = (Some e, messages', w')"
    by simp
  from e rest have first: "before_dispatch parse (hd ?rest) = Inl e"
    by simp
  from run_tool_calls_answered [OF run(1)] in_rest first run(1) whole show ?thesis
    by blast
qed

theorem malformed_arguments_end_round_witness:
  "\<lparr>tc_id = Some ''1'', fn_name = ''echo'', fn_arguments = ''{''\<rparr> \<in> set
     [\<lparr>tc_id = Some ''0'', fn_name = ''echo'', fn_arguments = ''{}''\<rparr>,
      \<lparr>tc_id = Some ''1'', fn_name = ''echo'', fn_arguments = ''{''\<rparr>,
      \<lparr>tc_id = Some ''2'', fn_name = ''echo'', fn_arguments = ''{}''\<rparr>] \<and>
   parse_sample (fn_arguments \<lparr>tc_id = Some ''1'', fn_name = ''echo'', fn_arguments = ''{''\<rparr>) =
     Inl (SyntaxError ''Unexpected end of JSON input'') \<and>
   run_tool_calls parse_sample tools_sample
     [\<lparr>tc_id = Some ''0'', fn_name = ''echo'', fn_arguments = ''{}''\<rparr>,
      \<lparr>tc_id = Some ''1'', fn_name = ''echo'', fn_arguments = ''{''\<rparr>,
      \<lparr>tc_id = Some ''2'', fn_name = ''echo'', fn_arguments = ''{}''\<rparr>] [] ()
   = (Some (SyntaxError ''Unexpected end of JSON input''),
      [Tool_msg (Some ''0'') ''echo'' ''done''], ()) \<and>
   takeWhile (dispatched parse_sample)
     [\<lparr>tc_id = Some ''0'', fn_name = ''echo'', fn_arguments = ''{}''\<rparr>,
      \<lparr>tc_id = Some ''1'', fn_name = ''echo'', fn_arguments = ''{''\<rparr>,
      \<lparr>tc_id = Some ''2'', fn_name = ''echo'', fn_arguments = ''{}''\<rparr>] =
     [\<lparr>tc_id = Some ''0'', fn_name = ''echo'', fn_arguments = ''{}''\<rparr>] \<and>
   answered [Tool_msg (Some ''0'') ''echo'' ''done''] = [Some ''0'']"
  using malformed_arguments_end_round [of
      "\<lparr>tc_id = Some ''1'', fn_name = ''echo'', fn_arguments = ''{''\<rparr>"
      "[\<lparr>tc_id = Some ''0'', fn_name = ''echo'', fn_arguments = ''{}''\<rparr>,
        \<lparr>tc_id = Some ''1'', fn_name = ''echo'', fn_arguments = ''{''\<rparr>,
        \<lparr>tc_id = Some ''2'', fn_name = ''echo'', fn_arguments = ''{}''\<rparr>]"
      parse_sample "SyntaxError ''Unexpected end of JSON input''" tools_sample "[]" "()"]
  by (simp add: parse_sample_def toString_text_def runTool_eq tools_sample_def dispatched_def
      before_dispatch_def argPreview_error_def)

text \<open>
  The claim as the specification states it fails: in the round below the first
  call has malformed arguments and the second is well formed, yet the second is
  not executed and no tool message is appended for it.
\<close>

theorem malformed_arguments_abort_siblings:
  "parse_sample ''{}'' = Inr (JObj []) \<and>
   run_tool_calls parse_sample tools_sample
     [\<lparr>tc_id = Some ''1'', fn_name = ''echo'', fn_arguments = ''{''\<rparr>,
      \<lparr>tc_id = Some ''2'', fn_name = ''echo'', fn_arguments = ''{}''\<rparr>] [] ()
   = (Some (SyntaxError ''Unexpected end of JSON input''), [], ())"
  by (simp add: parse_sample_def toString_text_def)

text \<open>
  The preview ends a round in the same way.  Arguments that parse to \<open>null\<close>
  make \<open>Object.values\<close> throw, and arguments whose first value is an object
  with a property \<open>toString\<close> make \<open>String\<close> throw: in both rounds below the
  first call is not dispatched and the round ends there, before the malformed
  call is reached.
\<close>

lemma preview_throws:
  "run_tool_calls parse_sample tools_sample
     [\<lparr>tc_id = Some ''0'', fn_name = ''echo'', fn_arguments = ''null''\<rparr>,
      \<lparr>tc_id = Some ''1'', fn_name = ''echo'', fn_arguments = ''{''\<rparr>,
      \<lparr>tc_id = Some ''2'', fn_name = ''echo'', fn_arguments = ''{}''\<rparr>] [] ()
   = (Some (TypeError ''Cannot convert undefined or null to object''), [], ())"
  "run_tool_calls parse_sample tools_sample
     [\<lparr>tc_id = Some ''0'', fn_name = ''echo'', fn_arguments = toString_text\<rparr>,
      \<lparr>tc_id = Some ''1'', fn_name = ''echo'', fn_arguments = ''{''\<rparr>] [] ()
   = (Some (TypeError ''Cannot convert object to primitive value''), [], ())"
  by (simp_all add: parse_sample_def toString_text_def argPreview_error_def)

section \<open>Properties of the assembler\<close>

lemma array_get_set:
  "array_get (array_set arr i v) j = (if j = i then Some v else array_get arr j)"
  by (cases arr) (auto simp: array_get_def array_set_def nth_append)

lemma array_get_add_fragment:
  "array_get (add_fragment arr f) j =
     (if j = index f then Some (merge_fragment f (array_get arr j)) else array_get arr j)"
  by (simp add: add_fragment_def array_get_set)

lemma array_get_foldl:
  "array_get (foldl add_fragment arr frags) j =
     foldl (\<lambda>a f. Some (merge_fragment f a)) (array_get arr j)
       (filter (\<lambda>f. index f = j) frags)"
  by (induction frags arbitrary: arr) (simp_all add: array_get_add_fragment)

text \<open>The elements of an array never reach beyond the array indices.\<close>

lemma length_array_set:
  "length (fst arr) \<le> 4294967295 \<Longrightarrow> length (fst (array_set arr i v)) \<le> 4294967295"
  by (cases arr) (auto simp: array_set_def array_index_def)

lemma length_foldl_add_fragment:
  "length (fst arr) \<le> 4294967295 \<Longrightarrow>
   length (fst (foldl add_fragment arr frags)) \<le> 4294967295"
  by (induction frags arbitrary: arr) (simp_all add: add_fragment_def length_array_set)

lemma append_if_truthy_text: "append_if_truthy acc s = acc @ text_of s"
  by (simp add: append_if_truthy_def text_of_def split: option.splits)

lemma foldl_merge_Some:
  "foldl (\<lambda>a f. Some (merge_fragment f a)) (Some a) fs =
     Some (a\<lparr>fn_name := fn_name a @ concat (map (\<lambda>f. text_of (frag_name f)) fs),
            fn_arguments := fn_arguments a @ concat (map (\<lambda>f. text_of (frag_arguments f)) fs)\<rparr>)"
  by (induction fs arbitrary: a) (simp_all add: merge_fragment_def append_if_truthy_text)

lemma foldl_merge_None:
  "foldl (\<lambda>a f. Some (merge_fragment f a)) None fs =
     (if fs = [] then None
      else Some \<lparr>tc_id = frag_id (hd fs),
          fn_name = concat (map (\<lambda>f. text_of (frag_name f)) fs),
          fn_arguments = concat (map (\<lambda>f. text_of (frag_arguments f)) fs)\<rparr>)"
proof (cases fs)
  case Nil
  then show ?thesis by simp
next
  case (Cons f rest)
  let ?a = "merge_fragment f None"
  have "foldl (\<lambda>a f. Some (merge_fragment f a)) None fs =
          foldl (\<lambda>a f. Some (merge_fragment f a)) (Some ?a) rest"
    by (simp add: Cons)
  also have "\<dots> =
      Some (?a\<lparr>fn_name := fn_name ?a @ concat (map (\<lambda>f. text_of (frag_name f)) rest),
            fn_arguments := fn_arguments ?a @ concat (map (\<lambda>f. text_of (frag_arguments f)) rest)\<rparr>)"
    by (rule foldl_merge_Some)
  finally show ?thesis
    by (simp add: Cons merge_fragment_def append_if_truthy_text)
qed

lemma array_get_assembled:
  "array_get (foldl add_fragment empty_array frags) j =
     (if j \<in> index ` set frags then Some (merged_at frags j) else None)"
proof -
  have "filter (\<lambda>f. index f = j) frags = [] \<longleftrightarrow> j \<notin> index ` set frags"
    by (auto simp: filter_empty_conv)
  moreover have "array_get (empty_array :: tool_call array) j = None"
    by (simp add: array_get_def empty_array_def)
  ultimately show ?thesis
    by (simp add: array_get_foldl foldl_merge_None merged_at_def Let_def)
qed

lemma snd_foldl_add_chunk:
  "snd (foldl add_chunk st chunks) = foldl add_fragment (snd st) (fragments_of chunks)"
proof (induction chunks arbitrary: st)
  case Nil
  then show ?case by (simp add: fragments_of_def)
next
  case (Cons d chunks)
  have "snd (add_chunk st d) =
          foldl add_fragment (snd st) (case tool_calls d of None \<Rightarrow> [] | Some tcs \<Rightarrow> tcs)"
    by (cases st) (simp add: add_chunk_def split: option.splits)
  with Cons.IH [of "add_chunk st d"] show ?case
    by (simp add: fragments_of_def)
qed

lemma filter_Boolean_indices:
  assumes "length (fst arr) \<le> 4294967295"
  shows "filter_Boolean arr =
     map (\<lambda>i. the (array_get arr i))
       (filter (\<lambda>i. array_get arr i \<noteq> None) [0..<length (fst arr)])"
proof -
  obtain xs props where arr: "arr = (xs, props)"
    by (cases arr)
  have get: "array_get arr i = xs ! i" if "i < length xs" for i
    using that assms by (simp add: arr array_get_def array_index_def)
  have eq: "map (array_get arr) [0..<length xs] = xs"
    by (rule nth_equalityI) (simp_all add: get)
  have "map the (filter (\<lambda>x. x \<noteq> None) (map (array_get arr) [0..<length xs])) =
          map (\<lambda>i. the (array_get arr i)) (filter (\<lambda>i. array_get arr i \<noteq> None) [0..<length xs])"
    by (simp add: filter_map comp_def)
  then have "map the (filter (\<lambda>x. x \<noteq> None) xs) =
          map (\<lambda>i. the (array_get arr i)) (filter (\<lambda>i. array_get arr i \<noteq> None) [0..<length xs])"
    by (simp only: eq)
  then show ?thesis
    by (simp add: arr filter_Boolean_def)
qed

lemma present_indices:
  assumes "length (fst arr) \<le> 4294967295"
  shows "filter (\<lambda>i. array_get arr i \<noteq> None) [0..<length (fst arr)] =
     sorted_list_of_set {i. array_index i \<and> array_get arr i \<noteq> None}"
proof -
  let ?L = "filter (\<lambda>i. array_get arr i \<noteq> None) [0..<length (fst arr)]"
  have "sorted ?L" by (simp add: sorted_wrt_filter)
  moreover have "distinct ?L" by simp
  moreover have "set ?L = {i. array_index i \<and> array_get arr i \<noteq> None}"
    using assms by (cases arr) (auto simp: array_get_def array_index_def)
  ultimately show ?thesis
    using sorted_list_of_set.idem_if_sorted_distinct [of ?L] by simp
qed

text \<open>
  C4, as the code has it.  Whatever the order and the indices of the fragments of
  a stream, the assembled tool calls are, in increasing order of index, one tool
  call for each array index (an index below \<open>4294967295\<close>) that received a
  fragment: it has the id of the first fragment at that index, and as name and
  arguments the texts of all fragments at that index, concatenated in arrival
  order.  Fragments at an index that is no array index give no tool call.
\<close>

theorem assemble_by_index:
  "snd (assemble chunks) =
     map (merged_at (fragments_of chunks))
       (sorted_list_of_set {i. i \<in> index ` set (fragments_of chunks) \<and> array_index i})"
proof -
  let ?frags = "fragments_of chunks"
  let ?A = "foldl add_fragment empty_array ?frags"
  let ?I = "{i. i \<in> index ` set ?frags \<and> array_index i}"
  have len: "length (fst ?A) \<le> 4294967295"
    by (rule length_foldl_add_fragment) (simp add: empty_array_def)
  have present: "{i. array_index i \<and> array_get ?A i \<noteq> None} = ?I"
    by (auto simp: array_get_assembled)
  have finite: "finite ?I"
    by simp
  have "snd (assemble chunks) = filter_Boolean ?A"
    using snd_foldl_add_chunk [of "([], empty_array)" chunks]
    by (cases "foldl add_chunk ([], empty_array) chunks") (simp add: assemble_def)
  also have "\<dots> = map (\<lambda>i. the (array_get ?A i)) (sorted_list_of_set ?I)"
    by (simp only: filter_Boolean_indices [OF len] present_indices [OF len] present)
  also have "\<dots> = map (merged_at ?frags) (sorted_list_of_set ?I)"
    using finite by (intro map_cong refl) (simp add: array_get_assembled)
  finally show ?thesis .
qed

text \<open>
  The example of the specification: fragments arriving at indices 1, 0 and then 1
  again give the calls of index 0 and 1, in that order, the second with its two
  pieces of arguments text joined.
\<close>

lemma assemble_out_of_order:
  "snd (assemble
     [\<lparr>content = None, tool_calls = Some
         [\<lparr>index = 1, frag_id = Some ''b'', frag_name = Some ''grep'', frag_arguments = Some ''{''\<rparr>,
          \<lparr>index = 0, frag_id = Some ''a'', frag_name = Some ''read'', frag_arguments = None\<rparr>]\<rparr>,
      \<lparr>content = Some ''hi'', tool_calls = Some
         [\<lparr>index = 1, frag_id = None, frag_name = None, frag_arguments = Some ''}''\<rparr>]\<rparr>])
   = [\<lparr>tc_id = Some ''a'', fn_name = ''read'', fn_arguments = []\<rparr>,
      \<lparr>tc_id = Some ''b'', fn_name = ''grep'', fn_arguments = ''{}''\<rparr>]"
  by (simp add: assemble_def add_chunk_def add_fragment_def merge_fragment_def array_get_def
      array_set_def array_index_def empty_array_def filter_Boolean_def append_if_truthy_def)

text \<open>
  The claim as the specification states it fails for an index that is no array
  index: the fragment below arrives at index \<open>4294967295\<close> with an id, a name
  and arguments, so that index received data, yet the assembled round has no
  tool call for it; the same fragment at index 7 gives its tool call.
\<close>

theorem assemble_drops_large_index:
  "snd (assemble
     [\<lparr>content = None, tool_calls = Some
         [\<lparr>index = 4294967295, frag_id = Some ''a'', frag_name = Some ''read'',
           frag_arguments = Some ''{}''\<rparr>]\<rparr>]) = [] \<and>
   snd (assemble
     [\<lparr>content = None, tool_calls = Some
         [\<lparr>index = 7, frag_id = Some ''a'', frag_name = Some ''read'',
           frag_arguments = Some ''{}''\<rparr>]\<rparr>]) =
     [\<lparr>tc_id = Some ''a'', fn_name = ''read'', fn_arguments = ''{}''\<rparr>]"
  by (simp add: assemble_def add_chunk_def add_fragment_def merge_fragment_def array_get_def
      array_set_def array_index_def empty_array_def filter_Boolean_def append_if_truthy_def
      replicate_numeral)

section \<open>Properties of edit\<close>

lemma hd_escapeRegExp: "escapeRegExp s = q # r \<Longrightarrow> q \<notin> set ''^$.*+?()[]{}|''"
  by (cases s) (auto simp: escapeRegExp_def syntax_chars_def backslash_def split: if_splits)

lemma escapeRegExp_Cons:
  "escapeRegExp (c # s) = (if c \<in> set syntax_chars then [backslash, c] else [c]) @ escapeRegExp s"
  by (simp add: escapeRegExp_def)

lemma parse_items_escapeRegExp:
  "parse_items (escapeRegExp old) = Some (map (\<lambda>c. One (Chr c)) old, False)"
proof (induction old)
  case Nil
  then show ?case by (simp add: escapeRegExp_def)
next
  case (Cons c old)
  have tail: "(case escapeRegExp old of
                 [] \<Rightarrow> Some ([One (Chr c)], False)
               | q # r' \<Rightarrow>
                   if q = CHR ''*'' \<or> q = CHR ''+'' then
                     (if r' \<noteq> [] \<and> hd r' \<in> set ''*+?{'' then None
                      else map_option
                             (\<lambda>(is, e). ((if q = CHR ''*'' then Star (Chr c) else Plus (Chr c)) # is, e))
                             (parse_items r'))
                   else map_option (\<lambda>(is, e). (One (Chr c) # is, e)) (parse_items (q # r')))
              = Some (One (Chr c) # map (\<lambda>c. One (Chr c)) old, False)"
  proof (cases "escapeRegExp old")
    case Nil
    then have "old = []" by (cases old) (auto simp: escapeRegExp_Cons split: if_splits)
    with Nil show ?thesis by simp
  next
    case (Cons q r')
    from hd_escapeRegExp [OF Cons] have "q \<noteq> CHR ''*''" "q \<noteq> CHR ''+''" by auto
    with Cons Cons.IH show ?thesis by simp
  qed
  show ?case
  proof (cases "c \<in> set syntax_chars")
    case True
    then have "atom_at backslash (c # escapeRegExp old) = Some (Chr c, 1)"
      by (simp add: atom_at_def)
    moreover have "backslash \<noteq> CHR ''$''" by (simp add: backslash_def)
    ultimately show ?thesis
      using True tail by (simp add: escapeRegExp_Cons)
  next
    case False
    then have "atom_at c (escapeRegExp old) = Some (Chr c, 0)" and "c \<noteq> CHR ''$''"
      by (auto simp: atom_at_def syntax_chars_def)
    then show ?thesis
      using False tail by (simp add: escapeRegExp_Cons)
  qed
qed

lemma RegExp_new_escapeRegExp:
  "RegExp_new (escapeRegExp old) =
     Some \<lparr>from_start = False, body = map (\<lambda>c. One (Chr c)) old, to_end = False\<rparr>"
proof -
  have ns: "(escapeRegExp old \<noteq> [] \<and> hd (escapeRegExp old) = CHR ''^'') \<longleftrightarrow> False"
    using hd_escapeRegExp [of old] by (cases "escapeRegExp old") auto
  show ?thesis
    unfolding RegExp_new_def Let_def ns by (simp add: parse_items_escapeRegExp)
qed

lemma match_here_literal:
  "match_here (map (\<lambda>c. One (Chr c)) old) False s =
     (if prefix old s then Some (length old) else None)"
proof (induction old arbitrary: s)
  case Nil
  then show ?case by simp
next
  case (Cons c old)
  then show ?case by (cases s) auto
qed

lemma count_matches_literal:
  "count_matches (map (\<lambda>c. One (Chr c)) old) False s = count_disjoint old s"
  by (induction old s rule: count_disjoint.induct) (simp_all add: match_here_literal)

lemma count_disjoint_includes: "0 < count_disjoint old s \<Longrightarrow> includes_str s old"
  by (induction old s rule: count_disjoint.induct) (auto split: if_splits)

text \<open>
  What the guard of \<open>edit\<close> does.  The occurrences that \<open>edit\<close> counts are
  those of a global match: found from left to right, each search resuming behind
  the last match.  When that count \<open>N\<close> is more than one and \<open>all\<close> is not
  set, \<open>edit\<close> returns the error text that reports \<open>N\<close> and the file
  system is unchanged.
\<close>

lemma edit_ambiguous:
  assumes "fs path = Some text" and "1 < count_disjoint old text"
  shows "edit fs path old newStr False =
           (Inr (''error: old_string appears '' @ String_of (int (count_disjoint old text))
                   @ '' times, must be unique (use all=true)''), fs)"
proof -
  from assms(2) have "includes_str text old"
    by (simp add: count_disjoint_includes)
  with assms show ?thesis
    by (simp add: edit_def readFileSync_def RegExp_new_escapeRegExp match_count_def
        count_matches_literal)
qed

lemma edit_ambiguous_example:
  "edit [''f'' \<mapsto> ''a-a-a''] ''f'' ''a'' ''b'' False =
     (Inr ''error: old_string appears 3 times, must be unique (use all=true)'', [''f'' \<mapsto> ''a-a-a''])"
proof -
  have "[''f'' \<mapsto> ''a-a-a''] ''f'' = Some ''a-a-a''" by simp
  moreover have "1 < count_disjoint ''a'' ''a-a-a''" by simp
  ultimately show ?thesis
    using edit_ambiguous [of "[''f'' \<mapsto> ''a-a-a'']" "''f''" "''a-a-a''" "''a''" "''b''"]
    by (simp add: eval_String)
qed

text \<open>
  C2. The guard misses occurrences that overlap.  The text \<open>aaa\<close> contains
  \<open>aa\<close> at the two positions 0 and 1, so \<open>old\<close> is not unique; yet \<open>edit\<close>
  counts one match, reports no error and rewrites the file, where the claim (and
  the description of the tool: \<open>old\<close> must be unique unless \<open>all\<close> is set)
  asks for the error and an unchanged file.
\<close>

theorem edit_overlapping_occurrences:
  "occurrences ''aa'' ''aaa'' = [0, 1] \<and>
   edit [''f'' \<mapsto> ''aaa''] ''f'' ''aa'' ''b'' False = (Inr ''ok'', [''f'' \<mapsto> ''ba''])"
  by (simp add: occurrences_def edit_def readFileSync_def escapeRegExp_def match_count_def
      replace_str_def RegExp_new_def atom_at_def backslash_def syntax_chars_def upt_rec)

text \<open>
  C5. The claim holds of the branch for \<open>all\<close>, which splits and joins, but not of
  the branch it is about: \<open>text.replace(old, newStr)\<close> reads \<open>$$\<close>, \<open>$&\<close>,
  \<open>$`\<close> and \<open>$'\<close> in \<open>newStr\<close> as substitution patterns.  The text \<open>abc\<close>
  with \<open>b\<close> replaced by \<open>$$\<close> is written back as \<open>a$c\<close>, not \<open>a$$c\<close>.
\<close>

theorem edit_dollar_replacement:
  "edit [''f'' \<mapsto> ''abc''] ''f'' ''b'' ''$$'' False = (Inr ''ok'', [''f'' \<mapsto> ''a$c'']) \<and>
   edit [''f'' \<mapsto> ''abc''] ''f'' ''b'' ''$$'' True = (Inr ''ok'', [''f'' \<mapsto> ''a$$c''])"
  by (simp add: edit_def readFileSync_def escapeRegExp_def match_count_def replace_str_def
      split_str_def RegExp_new_def atom_at_def backslash_def syntax_chars_def)

section \<open>Properties of read\<close>

lemma slice_nat: "slice xs (int k) (int k + int l) = take l (drop k xs)"
proof (cases "k \<le> length xs")
  case True
  have n: "nat (min (int k + int l) (int (length xs)) - int k) = min l (length xs - k)"
    using True by arith
  have "take (min l (length (drop k xs))) (drop k xs) = take l (drop k xs)"
    by (simp add: min_def)
  with True n show ?thesis
    by (simp add: slice_def Let_def)
next
  case False
  then have "nat (min (int k) (int (length xs))) = length xs"
    by arith
  with False show ?thesis
    by (simp add: slice_def Let_def)
qed

lemma map_enumerate_take_drop:
  "map (\<lambda>(idx, line). f (k + idx) line) (enumerate 0 (take l (drop k xs))) =
     map (\<lambda>i. f i (xs ! i)) [k ..< min (k + l) (length xs)]"
proof (rule nth_equalityI)
  show "length (map (\<lambda>(idx, line). f (k + idx) line) (enumerate 0 (take l (drop k xs)))) =
        length (map (\<lambda>i. f i (xs ! i)) [k ..< min (k + l) (length xs)])"
    by (auto simp: min_def)
next
  fix i
  assume "i < length (map (\<lambda>(idx, line). f (k + idx) line) (enumerate 0 (take l (drop k xs))))"
  then have i: "i < l" "i < length xs - k" by simp_all
  then have "[k ..< min (k + l) (length xs)] ! i = k + i"
    by (intro nth_upt) simp
  with i show "map (\<lambda>(idx, line). f (k + idx) line) (enumerate 0 (take l (drop k xs))) ! i =
        map (\<lambda>i. f i (xs ! i)) [k ..< min (k + l) (length xs)] ! i"
    by (simp add: nth_enumerate_eq)
qed

text \<open>
  C8, as the code has it.  For a readable file, an offset that is absent or a
  natural number and a limit that is absent or a natural number, \<open>read\<close> returns
  the lines with indices from the offset (0 when absent) up to but not including
  offset plus limit, or the end of the file; an absent limit and the limit 0
  both stand for the number of lines of the file.  Each line stands behind its
  1-based number, padded on the left to four columns, a bar and a blank; the
  lines are joined by newlines.
\<close>

theorem read_range:
  assumes "fs path = Some text"
  shows "read fs path (map_option int offset) (map_option int limit) =
     Inr (join_str
            (map (numbered (split_str text [newline]))
               [(case offset of None \<Rightarrow> 0 | Some k \<Rightarrow> k) ..<
                min ((case offset of None \<Rightarrow> 0 | Some k \<Rightarrow> k) +
                     (case limit of
                        None \<Rightarrow> length (split_str text [newline])
                      | Some l \<Rightarrow> if l = 0 then length (split_str text [newline]) else l))
                    (length (split_str text [newline]))])
            [newline])"
proof -
  let ?lines = "split_str text [newline]"
  let ?k = "case offset of None \<Rightarrow> 0 | Some k \<Rightarrow> k"
  let ?l = "case limit of None \<Rightarrow> length ?lines | Some l \<Rightarrow> if l = 0 then length ?lines else l"
  have k: "or_default (map_option int offset) 0 = int ?k"
    by (simp add: or_default_def split: option.splits)
  have l: "or_default (map_option int limit) (int (length ?lines)) = int ?l"
    by (simp add: or_default_def split: option.splits)
  have "map (\<lambda>(idx, line). padStart (String_of (int ?k + int idx + 1)) 4 @ ''| '' @ line)
          (enumerate 0 (take ?l (drop ?k ?lines))) =
        map (\<lambda>i. padStart (String_of (int i + 1)) 4 @ ''| '' @ ?lines ! i)
          [?k ..< min (?k + ?l) (length ?lines)]"
    using map_enumerate_take_drop
      [of "\<lambda>i line. padStart (String_of (int i + 1)) 4 @ ''| '' @ line" ?k ?l ?lines]
    by (simp add: add.assoc)
  then have "map (\<lambda>(idx, line). padStart (String_of (int ?k + int idx + 1)) 4 @ ''| '' @ line)
          (enumerate 0 (slice ?lines (int ?k) (int ?k + int ?l))) =
        map (numbered ?lines) [?k ..< min (?k + ?l) (length ?lines)]"
    by (simp only: slice_nat numbered_def [abs_def])
  moreover have "readFileSync fs path = Inr text"
    using assms by (simp add: readFileSync_def)
  ultimately show ?thesis
    by (simp add: read_def Let_def k l)
qed

theorem read_range_witness:
  "read [''f'' \<mapsto> ''a'' @ [newline] @ ''b'' @ [newline] @ ''c''] ''f'' (Some 1) (Some 1) = Inr ''   2| b''"
  using read_range [of "[''f'' \<mapsto> ''a'' @ [newline] @ ''b'' @ [newline] @ ''c'']" "''f''"
      "''a'' @ [newline] @ ''b'' @ [newline] @ ''c''" "Some 1" "Some 1"]
  by (simp add: numbered_def newline_def split_str_def eval_String padStart_def replicate_numeral upt_rec)

text \<open>
  The claim as the specification states it fails for the limit 0 and for a
  negative offset.  With limit 0 the range \<open>[0, 0)\<close> is empty, and \<open>read\<close>
  returns every line; the numbers are padded on the left, not on the right.  With
  offset \<open>-1\<close> and no limit the range \<open>[-1, 2)\<close> holds the lines 0 and 1 of
  three, and \<open>read\<close> returns nothing.
\<close>

theorem read_zero_limit_negative_offset:
  "range_indices 2 0 0 = [] \<and>
   read [''f'' \<mapsto> ''a'' @ [newline] @ ''b''] ''f'' (Some 0) (Some 0) =
     Inr (''   1| a'' @ [newline] @ ''   2| b'') \<and>
   range_indices 3 (- 1) 3 = [0, 1] \<and>
   read [''f'' \<mapsto> ''a'' @ [newline] @ ''b'' @ [newline] @ ''c''] ''f'' (Some (- 1)) None = Inr []"
  by (simp add: range_indices_def read_def readFileSync_def or_default_def slice_def
      newline_def split_str_def eval_String padStart_def replicate_numeral upt_rec)

section \<open>The two variants of matchPattern\<close>

text \<open>
  C10. The two variants differ on \<open>**\<close>.  In the non-streaming variant the
  replacement of \<open>*\<close> also rewrites the star of the \<open>.*\<close> just made for
  \<open>**\<close>, which leaves \<open>.[^/]*\<close>: one character and then no separator.  The
  pattern \<open>**\<close> matches the path \<open>a/b\<close> in \<open>vibecode.js\<close> and not in the other
  variant.
\<close>

theorem matchPattern_variants_differ:
  "regexPattern ''**'' = ''.*'' \<and>
   regexPattern_nanocode ''**'' = ''.[^/]*'' \<and>
   matchPattern RegExp_fragment ''a/b'' ''**'' = Inr True \<and>
   matchPattern_nanocode RegExp_fragment ''a/b'' ''**'' = Inr False"
  by (simp add: matchPattern_def matchPattern_nanocode_def regexPattern_def
      regexPattern_nanocode_def eval_regexp)


section \<open>Properties of grep\<close>

lemma enumerate_nth: "enumerate 0 xs = map (\<lambda>i. (i, xs ! i)) [0..<length xs]"
  by (rule nth_equalityI) (simp_all add: nth_enumerate_eq)

lemma grep_file_eq:
  "grep_file pattern p t = matching_lines_of pattern (p, mtime, Some t)"
  by (simp add: grep_file_def matching_lines_of_def enumerate_nth filter_map comp_def hit_line_def)

lemma grep_walk_files:
  "grep_entries pattern dir es hits =
     hits @ concat (map (matching_lines_of pattern) (files_entries dir es))"
  "grep_visit pattern p n hits =
     hits @ concat (map (matching_lines_of pattern) (files_node p n))"
proof (induction pattern dir es hits and pattern p n hits rule: grep_entries_grep_visit.induct)
  case (4 pattern filepath mtime t hits)
  then show ?case
    by (cases t) (simp_all add: grep_file_eq [of _ _ _ mtime] matching_lines_of_def)
qed simp_all

lemma grep_walk_eq: "grep_walk pattern cwd basePath = matching_lines pattern cwd basePath"
  by (simp add: grep_walk_def matching_lines_def files_under_def grep_walk_files
      split: option.splits node.splits)

lemma join_str_Nil_iff: "[] \<notin> set xs \<Longrightarrow> join_str xs sep = [] \<longleftrightarrow> xs = []"
  by (induction xs sep rule: join_str.induct) auto

lemma matching_lines_nonempty: "[] \<notin> set (matching_lines pattern cwd basePath)"
  by (auto simp: matching_lines_def matching_lines_of_def hit_line_def split: option.splits)

text \<open>The matching lines of a file of \<open>n\<close> lines \<open>h\<close>.\<close>

lemma split_aux_lines:
  "split_aux [newline] cur (concat (replicate n [CHR ''h'', newline])) =
     (case n of 0 \<Rightarrow> [cur] | Suc m \<Rightarrow> (cur @ ''h'') # replicate m ''h'' @ [[]])"
proof (induction n arbitrary: cur)
  case 0
  then show ?case by simp
next
  case (Suc n)
  have "split_aux [newline] cur (concat (replicate (Suc n) [CHR ''h'', newline])) =
        (cur @ ''h'') # split_aux [newline] [] (concat (replicate n [CHR ''h'', newline]))"
    by (simp add: newline_def)
  also have "split_aux [newline] [] (concat (replicate n [CHR ''h'', newline])) = replicate n ''h'' @ [[]]"
    by (simp add: Suc.IH split: nat.splits)
  finally show ?case by simp
qed

lemma split_str_lines:
  "split_str (concat (replicate n [CHR ''h'', newline])) [newline] = replicate n ''h'' @ [[]]"
  by (simp add: split_str_def split_aux_lines split: nat.splits)

lemma matching_lines_of_lines:
  "matching_lines_of (test \<lparr>from_start = False, body = [One (Chr CHR ''h'')], to_end = False\<rparr>)
     (p, mtime, Some (concat (replicate n [CHR ''h'', newline]))) =
   map (\<lambda>i. path_text p @ '':'' @ String_of (int i + 1) @ '':h'') [0..<n]"
proof -
  let ?L = "replicate n ''h'' @ [[]]"
  let ?re = "test \<lparr>from_start = False, body = [One (Chr CHR ''h'')], to_end = False\<rparr>"
  have nth: "?L ! i = ''h''" if "i < n" for i
    using that by (simp add: nth_append)
  define P where "P = (\<lambda>i. ?re (?L ! i))"
  have "filter P [0..<n] = [0..<n]"
    by (rule filter_True) (simp add: P_def nth test_def)
  moreover have "\<not> P n"
    by (simp add: P_def nth_append test_def)
  ultimately have "filter P [0..<length ?L] = [0..<n]"
    by simp
  then have idx: "filter (\<lambda>i. ?re (?L ! i)) [0..<length ?L] = [0..<n]"
    by (simp only: P_def)
  have "map (\<lambda>i. hit_line p i (?L ! i)) [0..<n] =
        map (\<lambda>i. path_text p @ '':'' @ String_of (int i + 1) @ '':h'') [0..<n]"
    by (rule map_cong) (simp_all add: nth hit_line_def trimEnd_def is_space_def)
  with idx show ?thesis
    by (simp add: matching_lines_of_def split_str_lines)
qed

lemma matching_lines_long:
  "matching_lines (test \<lparr>from_start = False, body = [One (Chr CHR ''h'')], to_end = False\<rparr>)
     tree_long [] =
   map (\<lambda>i. ''f:'' @ String_of (int i + 1) @ '':h'') [0..<60]"
  by (simp add: matching_lines_def files_under_def tree_long_def matching_lines_of_lines
      path_text_def)

text \<open>
  C7, as the code has it.  \<open>grep\<close> compiles the pattern before the walk and
  outside any \<open>try\<close>: for a pattern that \<open>RegExp\<close> rejects, \<open>grep\<close> throws
  the error of \<open>RegExp\<close> and returns nothing.  For every pattern that compiles
  and every tree, \<open>grep\<close> returns the first 50 of the matching lines of the
  readable files under the base path (all of them when there are fewer), in the
  order of the walk and of the lines, each as the path, a colon, the 1-based
  line number, a colon and the line without its trailing white space; they are
  joined by newlines, and the result is \<open>none\<close> when no line matches.
\<close>

theorem grep_first_50:
  "(\<forall>err. RegExp pat = Inl err \<longrightarrow> grep RegExp cwd pat basePath = Inl err) \<and>
   (\<forall>pattern. RegExp pat = Inr pattern \<longrightarrow>
      grep RegExp cwd pat basePath =
        Inr (if matching_lines pattern cwd basePath = [] then ''none''
             else join_str (take 50 (matching_lines pattern cwd basePath)) [newline]))"
proof (intro conjI allI impI)
  fix err
  assume "RegExp pat = Inl err"
  then show "grep RegExp cwd pat basePath = Inl err"
    by (simp add: grep_def)
next
  fix pattern
  assume re: "RegExp pat = Inr pattern"
  let ?hits = "matching_lines pattern cwd basePath"
  have "[] \<notin> set (take 50 ?hits)"
    using matching_lines_nonempty [of pattern cwd basePath] by (auto dest: in_set_takeD)
  then have "join_str (take 50 ?hits) [newline] = [] \<longleftrightarrow> ?hits = []"
    by (simp add: join_str_Nil_iff)
  with re show "grep RegExp cwd pat basePath =
        Inr (if ?hits = [] then ''none'' else join_str (take 50 ?hits) [newline])"
    by (simp add: grep_def grep_walk_eq or_none_def)
qed

text \<open>
  Three instances: two matching lines, of which the first loses its trailing
  blanks; a file with 60 matching lines, of which the first 50 are returned;
  and the pattern \<open>*\<close>, which has nothing to repeat and is rejected.
\<close>

theorem grep_first_50_witness:
  "grep RegExp_fragment tree_sample ''h'' [] =
     Inr (''sub/a.txt:1:hi'' @ [newline] @ ''sub/a.txt:2:ho'') \<and>
   grep RegExp_fragment tree_long ''h'' [] =
     Inr (join_str (map (\<lambda>i. ''f:'' @ String_of (int i + 1) @ '':h'') [0..<50]) [newline]) \<and>
   grep RegExp_fragment tree_sample ''*'' [] = Inl (SyntaxError ''Invalid regular expression'')"
proof -
  have re: "RegExp_fragment ''h'' =
      Inr (test \<lparr>from_start = False, body = [One (Chr CHR ''h'')], to_end = False\<rparr>)"
    "RegExp_fragment ''*'' = Inl (SyntaxError ''Invalid regular expression'')"
    by (simp_all add: eval_regexp)
  have sample: "matching_lines (test \<lparr>from_start = False, body = [One (Chr CHR ''h'')], to_end = False\<rparr>)
      tree_sample [] = [''sub/a.txt:1:hi'', ''sub/a.txt:2:ho'']"
    by (simp add: matching_lines_def matching_lines_of_def files_under_def tree_sample_def
        hit_line_def path_text_def split_str_def trimEnd_def is_space_def
        newline_def test_def eval_String)
  have long: "take 50 (map g [0..<60]) = map g [0..<50]" for g :: "nat \<Rightarrow> string"
    by (simp add: take_map)
  show ?thesis
    using grep_first_50 [of RegExp_fragment "''h''" tree_sample "[]"]
      grep_first_50 [of RegExp_fragment "''h''" tree_long "[]"]
      grep_first_50 [of RegExp_fragment "''*''" tree_sample "[]"] re
    by (simp add: sample matching_lines_long long)
qed

text \<open>
  The claim as the specification states it fails for a pattern that is no
  regular expression: for the pattern \<open>(\<close>, an unterminated group, \<open>grep\<close>
  returns neither matching lines nor \<open>none\<close>; it throws.
\<close>

theorem grep_invalid_pattern:
  "grep RegExp_fragment tree_sample ''('' [] = Inl (SyntaxError ''Invalid regular expression'')"
  by (simp add: grep_def eval_regexp)

section \<open>Properties of glob\<close>












section \<open>Properties of matchPattern\<close>

lemma replace_all_single:
  "replace_all [x] rep s = concat (map (\<lambda>y. if y = x then rep else [y]) s)"
  by (induction s) auto

lemma replace_all_skip:
  "lit \<noteq> [] \<Longrightarrow> x \<noteq> hd lit \<Longrightarrow> replace_all lit rep (x # s) = x # replace_all lit rep s"
  by (cases lit) simp_all

lemma replace_all_hit:
  "lit \<noteq> [] \<Longrightarrow> replace_all lit rep (lit @ s) = rep @ replace_all lit rep s"
  by (cases lit) simp_all

lemma render_Nil [simp]: "render f [] = []"
  by (simp add: render_def)

lemma render_Cons [simp]: "render f (t # ts) = f t @ render f ts"
  by (simp add: render_def)

lemma tokens_lit:
  "TLit c \<in> set (tokens p) \<Longrightarrow> c \<in> set p \<and> c \<noteq> CHR ''.'' \<and> c \<noteq> CHR ''*'' \<and> c \<noteq> CHR ''?''"
  by (induction p rule: tokens.induct) (auto simp: tok_def split: if_splits)

lemma render_tokens: "render (show_token ''.'' ''**'' ''*'' ''?'') (tokens p) = p"
  by (induction p rule: tokens.induct) (auto simp: tok_def)

lemma replace_single_render:
  assumes "\<And>t. t \<in> set ts \<Longrightarrow> concat (map (\<lambda>y. if y = x then rep else [y]) (f t)) = g t"
  shows "replace_all [x] rep (render f ts) = render g ts"
  using assms by (induction ts) (simp_all add: replace_all_single)


text \<open>The five replacements of \<open>matchPattern\<close>, each as a rewriting of tokens.\<close>

lemma step1:
  "replace_all ''.'' [backslash, CHR ''.''] p =
     render (show_token [backslash, CHR ''.''] ''**'' ''*'' ''?'') (tokens p)"
proof -
  have "replace_all ''.'' [backslash, CHR ''.''] (render (show_token ''.'' ''**'' ''*'' ''?'') (tokens p)) =
        render (show_token [backslash, CHR ''.''] ''**'' ''*'' ''?'') (tokens p)"
  proof (rule replace_single_render)
    fix t assume t: "t \<in> set (tokens p)"
    show "concat (map (\<lambda>y. if y = CHR ''.'' then [backslash, CHR ''.''] else [y])
                 (show_token ''.'' ''**'' ''*'' ''?'' t)) =
               show_token [backslash, CHR ''.''] ''**'' ''*'' ''?'' t"
      by (cases t) (use t in \<open>auto dest: tokens_lit\<close>)
  qed
  then show ?thesis by (simp only: render_tokens)
qed

lemma hd_render1:
  "d \<noteq> CHR ''*'' \<Longrightarrow>
   render (show_token [backslash, CHR ''.''] ''**'' ''*'' ''?'') (tokens (d # p)) = z # r \<Longrightarrow>
   z \<noteq> CHR ''*''"
  by (cases p) (auto simp: tok_def backslash_def split: if_splits)

lemma step2:
  "replace_all ''**'' ''__DOUBLE_STAR__''
     (render (show_token [backslash, CHR ''.''] ''**'' ''*'' ''?'') (tokens p)) =
   render (show_token [backslash, CHR ''.''] ''__DOUBLE_STAR__'' ''*'' ''?'') (tokens p)"
proof (induction p rule: tokens.induct)
  case 1
  then show ?case by simp
next
  case (2 c)
  then show ?case by (simp add: tok_def backslash_def)
next
  case (3 c d p)
  let ?f = "show_token [backslash, CHR ''.''] ''**'' ''*'' ''?''"
  show ?case
  proof (cases "c = CHR ''*'' \<and> d = CHR ''*''")
    case True
    with 3 show ?thesis by simp
  next
    case False
    with 3 have IH: "replace_all ''**'' ''__DOUBLE_STAR__'' (render ?f (tokens (d # p))) =
        render (show_token [backslash, CHR ''.''] ''__DOUBLE_STAR__'' ''*'' ''?'') (tokens (d # p))"
      by simp
    show ?thesis
    proof (cases "c = CHR ''*''")
      case True
      with False have d: "d \<noteq> CHR ''*''" by simp
      have "\<not> prefix ''**'' (CHR ''*'' # render ?f (tokens (d # p)))"
        using hd_render1 [OF d, of p] by (cases "render ?f (tokens (d # p))") auto
      with True False IH show ?thesis
        by (simp add: tok_def)
    next
      case False
      with \<open>\<not> (c = CHR ''*'' \<and> d = CHR ''*'')\<close> IH show ?thesis
        by (simp add: tok_def backslash_def)
    qed
  qed
qed

lemma step3:
  "replace_all ''*'' ''[^/]*''
     (render (show_token [backslash, CHR ''.''] ''__DOUBLE_STAR__'' ''*'' ''?'') (tokens p)) =
   render (show_token [backslash, CHR ''.''] ''__DOUBLE_STAR__'' ''[^/]*'' ''?'') (tokens p)"
proof (rule replace_single_render)
  fix t assume t: "t \<in> set (tokens p)"
  show "concat (map (\<lambda>y. if y = CHR ''*'' then ''[^/]*'' else [y])
               (show_token [backslash, CHR ''.''] ''__DOUBLE_STAR__'' ''*'' ''?'' t)) =
             show_token [backslash, CHR ''.''] ''__DOUBLE_STAR__'' ''[^/]*'' ''?'' t"
    by (cases t) (use t in \<open>auto dest: tokens_lit simp: backslash_def\<close>)
qed

lemma step5:
  "replace_all ''?'' ''.''
     (render (show_token [backslash, CHR ''.''] ''.*'' ''[^/]*'' ''?'') (tokens p)) =
   render (show_token [backslash, CHR ''.''] ''.*'' ''[^/]*'' ''.'') (tokens p)"
proof (rule replace_single_render)
  fix t assume t: "t \<in> set (tokens p)"
  show "concat (map (\<lambda>y. if y = CHR ''?'' then ''.'' else [y])
               (show_token [backslash, CHR ''.''] ''.*'' ''[^/]*'' ''?'' t)) =
             show_token [backslash, CHR ''.''] ''.*'' ''[^/]*'' ''.'' t"
    by (cases t) (use t in \<open>auto dest: tokens_lit simp: backslash_def\<close>)
qed


lemma render3_letter:
  assumes "render (show_token [backslash, CHR ''.''] ''__DOUBLE_STAR__'' ''[^/]*'' ''?'') (tokens q) = x # r"
    and "letter x"
  shows "\<exists>q'. q = x # q' \<and>
           r = render (show_token [backslash, CHR ''.''] ''__DOUBLE_STAR__'' ''[^/]*'' ''?'') (tokens q')"
proof (cases q rule: tokens.cases)
  case 1
  with assms show ?thesis by simp
next
  case (2 c)
  with assms show ?thesis
    by (auto simp: tok_def letter_def split: if_splits)
next
  case (3 c d p)
  with assms show ?thesis
    by (auto simp: tok_def letter_def split: if_splits)
qed

lemma render3_letters:
  "list_all letter w \<Longrightarrow>
   render (show_token [backslash, CHR ''.''] ''__DOUBLE_STAR__'' ''[^/]*'' ''?'') (tokens q) = w @ r \<Longrightarrow>
   \<exists>q'. q = w @ q' \<and>
      r = render (show_token [backslash, CHR ''.''] ''__DOUBLE_STAR__'' ''[^/]*'' ''?'') (tokens q')"
proof (induction w arbitrary: q)
  case Nil
  then show ?case by simp
next
  case (Cons x w)
  from Cons.prems have "letter x" and w: "list_all letter w" by simp_all
  from render3_letter [OF _ \<open>letter x\<close>, of q "w @ r"] Cons.prems(2)
  obtain q1 where q1: "q = x # q1"
    and r1: "w @ r = render (show_token [backslash, CHR ''.''] ''__DOUBLE_STAR__'' ''[^/]*'' ''?'') (tokens q1)"
    by auto
  from Cons.IH [OF w r1 [symmetric]] q1 show ?case by auto
qed

lemma render3_underscore:
  assumes "render (show_token [backslash, CHR ''.''] ''__DOUBLE_STAR__'' ''[^/]*'' ''?'') (tokens q) = CHR ''_'' # r"
  shows "(\<exists>q'. q = CHR ''_'' # q' \<and>
            r = render (show_token [backslash, CHR ''.''] ''__DOUBLE_STAR__'' ''[^/]*'' ''?'') (tokens q')) \<or>
         (\<exists>r'. r = ''_DOUBLE_STAR__'' @ r')"
proof (cases q rule: tokens.cases)
  case 1
  with assms show ?thesis by simp
next
  case (2 c)
  with assms show ?thesis
    by (auto simp: tok_def backslash_def split: if_splits)
next
  case (3 c d p)
  with assms show ?thesis
    by (auto simp: tok_def backslash_def split: if_splits)
qed

lemma render3_placeholder:
  assumes "prefix ''__DOUBLE_STAR__''
             (CHR ''_'' # render (show_token [backslash, CHR ''.''] ''__DOUBLE_STAR__'' ''[^/]*'' ''?'') (tokens q))"
  shows "prefix ''_DOUBLE_STAR'' q"
proof -
  let ?R = "\<lambda>q. render (show_token [backslash, CHR ''.''] ''__DOUBLE_STAR__'' ''[^/]*'' ''?'') (tokens q)"
  from assms obtain r where r: "?R q = CHR ''_'' # (''DOUBLE'' @ CHR ''_'' # (''STAR'' @ r))"
    by (auto simp: prefix_def)
  from render3_underscore [OF r] obtain q1 where q1: "q = CHR ''_'' # q1"
    and r1: "?R q1 = ''DOUBLE'' @ CHR ''_'' # (''STAR'' @ r)"
    by auto
  have "list_all letter ''DOUBLE''" "list_all letter ''STAR''"
    by (simp_all add: letter_def backslash_def)
  from render3_letters [OF this(1) r1] obtain q2 where q2: "q1 = ''DOUBLE'' @ q2"
    and r2: "?R q2 = CHR ''_'' # (''STAR'' @ r)"
    by auto
  from render3_underscore [OF r2] obtain q3 where q3: "q2 = CHR ''_'' # q3"
    and r3: "?R q3 = ''STAR'' @ r"
    by auto
  from render3_letters [OF \<open>list_all letter ''STAR''\<close> r3] obtain q4 where "q3 = ''STAR'' @ q4"
    by auto
  with q1 q2 q3 show ?thesis by simp
qed

lemma includes_str_Cons: "\<not> includes_str (c # s) sub \<Longrightarrow> \<not> includes_str s sub"
  by simp

lemma step4:
  "\<not> includes_str p ''__DOUBLE_STAR'' \<Longrightarrow>
   replace_all ''__DOUBLE_STAR__'' ''.*''
     (render (show_token [backslash, CHR ''.''] ''__DOUBLE_STAR__'' ''[^/]*'' ''?'') (tokens p)) =
   render (show_token [backslash, CHR ''.''] ''.*'' ''[^/]*'' ''?'') (tokens p)"
proof (induction p rule: tokens.induct)
  case 1
  then show ?case by simp
next
  case (2 c)
  then show ?case by (simp add: tok_def backslash_def)
next
  case (3 c d p)
  let ?f = "show_token [backslash, CHR ''.''] ''__DOUBLE_STAR__'' ''[^/]*'' ''?''"
  let ?g = "show_token [backslash, CHR ''.''] ''.*'' ''[^/]*'' ''?''"
  from "3.prems" have tl: "\<not> includes_str (d # p) ''__DOUBLE_STAR''" and tl2: "\<not> includes_str p ''__DOUBLE_STAR''"
    by simp_all
  show ?case
  proof (cases "c = CHR ''*'' \<and> d = CHR ''*''")
    case True
    with "3.IH"(1) tl2 show ?thesis by simp
  next
    case False
    with "3.IH"(2) tl have IH: "replace_all ''__DOUBLE_STAR__'' ''.*'' (render ?f (tokens (d # p))) =
        render ?g (tokens (d # p))"
      by simp
    show ?thesis
    proof (cases "c = CHR ''_''")
      case True
      have "\<not> prefix ''__DOUBLE_STAR__'' (CHR ''_'' # render ?f (tokens (d # p)))"
      proof
        assume "prefix ''__DOUBLE_STAR__'' (CHR ''_'' # render ?f (tokens (d # p)))"
        have "prefix ''__DOUBLE_STAR'' (CHR ''_'' # d # p) = prefix ''_DOUBLE_STAR'' (d # p)"
          by (simp only: Cons_prefix_Cons simp_thms)
        with render3_placeholder [OF \<open>prefix ''__DOUBLE_STAR__'' (CHR ''_'' # render ?f (tokens (d # p)))\<close>]
        have "prefix ''__DOUBLE_STAR'' (CHR ''_'' # d # p)"
          by blast
        then have "prefix ''__DOUBLE_STAR'' (c # d # p)"
          unfolding True .
        then have "includes_str (c # d # p) ''__DOUBLE_STAR''"
          by (simp only: includes_str.simps simp_thms)
        with "3.prems" show False by blast
      qed
      with True False IH show ?thesis
        by (simp add: tok_def)
    next
      case False
      with \<open>\<not> (c = CHR ''*'' \<and> d = CHR ''*'')\<close> IH show ?thesis
        by (simp add: tok_def backslash_def)
    qed
  qed
qed

lemma regexPattern_tokens:
  "\<not> includes_str pattern ''__DOUBLE_STAR'' \<Longrightarrow>
   regexPattern pattern =
     render (show_token [backslash, CHR ''.''] ''.*'' ''[^/]*'' ''.'') (tokens pattern)"
  by (simp add: regexPattern_def step1 step2 step3 step4 step5)


text \<open>The regular expression that the text of the tokens is parsed into.\<close>

lemma tokens_plain: "plain_pattern p \<Longrightarrow> list_all plain_token (tokens p)"
proof -
  assume p: "plain_pattern p"
  have "plain_token t" if "t \<in> set (tokens p)" for t
  proof (cases t)
    case (TLit c)
    with that tokens_lit [of c p] p show ?thesis
      by (auto simp: plain_token_def plain_pattern_def list_all_iff syntax_chars_def)
  qed (simp_all add: plain_token_def)
  then show ?thesis by (simp add: list_all_iff)
qed

lemma next_char:
  assumes "list_all plain_token ts"
    and "render (show_token [backslash, CHR ''.''] ''.*'' ''[^/]*'' ''.'') ts @ ''$'' = q # r"
  shows "q \<notin> set ''*+?{''"
proof (cases ts)
  case Nil
  with assms show ?thesis by auto
next
  case (Cons t ts')
  with assms show ?thesis
    by (cases t) (auto simp: plain_token_def syntax_chars_def backslash_def)
qed

lemma parse_items_render:
  "list_all plain_token ts \<Longrightarrow>
   parse_items (render (show_token [backslash, CHR ''.''] ''.*'' ''[^/]*'' ''.'') ts @ ''$'') =
     Some (map item_of ts, True)"
proof (induction ts)
  case Nil
  then show ?case by simp
next
  case (Cons t ts)
  let ?rest = "render (show_token [backslash, CHR ''.''] ''.*'' ''[^/]*'' ''.'') ts @ ''$''"
  from Cons have IH: "parse_items ?rest = Some (map item_of ts, True)"
    and plain: "list_all plain_token ts" and t: "plain_token t"
    by simp_all
  obtain q r where qr: "?rest = q # r"
    by (cases ?rest) auto
  from next_char [OF plain qr] have q: "q \<noteq> CHR ''*''" "q \<noteq> CHR ''+''" "q \<notin> set ''*+?{''"
    by auto
  have one: "(case ?rest of
               [] \<Rightarrow> Some ([One a], False)
             | q # r' \<Rightarrow>
                 if q = CHR ''*'' \<or> q = CHR ''+'' then
                   (if r' \<noteq> [] \<and> hd r' \<in> set ''*+?{'' then None
                    else map_option
                           (\<lambda>(is, e). ((if q = CHR ''*'' then Star a else Plus a) # is, e))
                           (parse_items r'))
                 else map_option (\<lambda>(is, e). (One a # is, e)) (parse_items (q # r')))
             = Some (One a # map item_of ts, True)" for a
    using IH q by (simp add: qr)
  show ?case
  proof (cases t)
    case TDot
    have "atom_at backslash (CHR ''.'' # ?rest) = Some (Chr CHR ''.'', 1)"
      by (simp add: atom_at_def syntax_chars_def)
    moreover have "backslash \<noteq> CHR ''$''" by (simp add: backslash_def)
    ultimately show ?thesis
      using TDot one [of "Chr CHR ''.''"] by simp
  next
    case TDoubleStar
    have "atom_at CHR ''.'' (CHR ''*'' # ?rest) = Some (AnyChar, 0)"
      by (simp add: atom_at_def backslash_def)
    then show ?thesis
      using TDoubleStar IH q by (simp add: qr)
  next
    case TStar
    have "atom_at CHR ''['' (''^/]*'' @ ?rest) = Some (NotSlash, 3)"
      by (simp add: atom_at_def backslash_def)
    then show ?thesis
      using TStar IH q by (simp add: qr)
  next
    case TQuestion
    have "atom_at CHR ''.'' ?rest = Some (AnyChar, 0)"
      by (simp add: atom_at_def backslash_def)
    then show ?thesis
      using TQuestion one [of AnyChar] by simp
  next
    case (TLit c)
    with t have c: "c \<notin> set syntax_chars" by (simp add: plain_token_def)
    then have "atom_at c ?rest = Some (Chr c, 0)" and "c \<noteq> CHR ''$''"
      by (auto simp: atom_at_def syntax_chars_def)
    then show ?thesis
      using TLit one [of "Chr c"] by simp
  qed
qed

lemma RegExp_new_render:
  "list_all plain_token ts \<Longrightarrow>
   RegExp_new (''^'' @ render (show_token [backslash, CHR ''.''] ''.*'' ''[^/]*'' ''.'') ts @ ''$'') =
     Some \<lparr>from_start = True, body = map item_of ts, to_end = True\<rparr>"
  by (simp add: RegExp_new_def parse_items_render)

text \<open>The matcher on that regular expression, and the tokens on the path.\<close>

lemma match_here_Star:
  "match_here (Star a # is) e s \<noteq> None \<longleftrightarrow>
     (\<exists>k\<le>length s. (\<forall>c \<in> set (take k s). atom_matches a c) \<and> match_here is e (drop k s) \<noteq> None)"
proof (induction s)
  case Nil
  then show ?case by simp
next
  case (Cons c s)
  let ?R = "\<lambda>s. \<exists>k\<le>length s. (\<forall>c \<in> set (take k s). atom_matches a c) \<and> match_here is e (drop k s) \<noteq> None"
  have split: "?R (c # s) \<longleftrightarrow> match_here is e (c # s) \<noteq> None \<or> (atom_matches a c \<and> ?R s)"
  proof
    assume "?R (c # s)"
    then obtain k where k: "k \<le> length (c # s)" "\<forall>x \<in> set (take k (c # s)). atom_matches a x"
      "match_here is e (drop k (c # s)) \<noteq> None" by blast
    show "match_here is e (c # s) \<noteq> None \<or> (atom_matches a c \<and> ?R s)"
    proof (cases k)
      case 0
      with k show ?thesis by simp
    next
      case (Suc j)
      with k have "atom_matches a c" "j \<le> length s" "\<forall>x \<in> set (take j s). atom_matches a x"
        "match_here is e (drop j s) \<noteq> None" by simp_all
      then show ?thesis by blast
    qed
  next
    assume "match_here is e (c # s) \<noteq> None \<or> (atom_matches a c \<and> ?R s)"
    then show "?R (c # s)"
    proof
      assume "match_here is e (c # s) \<noteq> None"
      then have "0 \<le> length (c # s) \<and> (\<forall>x \<in> set (take 0 (c # s)). atom_matches a x) \<and>
          match_here is e (drop 0 (c # s)) \<noteq> None" by simp
      then show ?thesis by blast
    next
      assume "atom_matches a c \<and> ?R s"
      then obtain j where "atom_matches a c" "j \<le> length s" "\<forall>x \<in> set (take j s). atom_matches a x"
        "match_here is e (drop j s) \<noteq> None" by blast
      then have "Suc j \<le> length (c # s) \<and> (\<forall>x \<in> set (take (Suc j) (c # s)). atom_matches a x) \<and>
          match_here is e (drop (Suc j) (c # s)) \<noteq> None" by simp
      then show ?thesis by blast
    qed
  qed
  have "match_here (Star a # is) e (c # s) \<noteq> None \<longleftrightarrow>
        match_here is e (c # s) \<noteq> None \<or> (atom_matches a c \<and> match_here (Star a # is) e s \<noteq> None)"
    by (auto split: option.splits)
  with Cons.IH split show ?case by simp
qed

lemma no_line_terminator_drop: "no_line_terminator s \<Longrightarrow> no_line_terminator (drop k s)"
  by (auto simp: no_line_terminator_def list_all_iff dest: in_set_dropD)

lemma no_line_terminator_take:
  "no_line_terminator s \<Longrightarrow> c \<in> set (take k s) \<Longrightarrow> atom_matches AnyChar c"
  by (auto simp: no_line_terminator_def list_all_iff dest: in_set_takeD)

lemma match_here_tokens:
  "no_line_terminator s \<Longrightarrow>
   match_here (map item_of ts) True s \<noteq> None \<longleftrightarrow> matches_tokens ts s"
proof (induction ts arbitrary: s)
  case Nil
  then show ?case by simp
next
  case (Cons t ts)
  have IH: "match_here (map item_of ts) True (drop k s) \<noteq> None \<longleftrightarrow> matches_tokens ts (drop k s)" for k
    using Cons.IH [OF no_line_terminator_drop [OF Cons.prems]] .
  have bound: "(\<exists>k \<in> set [0..<Suc (length s)]. P k) \<longleftrightarrow> (\<exists>k\<le>length s. P k)" for P
    by (simp only: Bex_def set_upt atLeastLessThan_iff less_Suc_eq_le) auto
  show ?case
  proof (cases t)
    case TDoubleStar
    have all: "(\<forall>c \<in> set (take k s). atom_matches AnyChar c) \<longleftrightarrow> True" for k
      using no_line_terminator_take [OF Cons.prems] by blast
    have "match_here (map item_of (t # ts)) True s \<noteq> None \<longleftrightarrow>
          (\<exists>k\<le>length s. (\<forall>c \<in> set (take k s). atom_matches AnyChar c) \<and>
             match_here (map item_of ts) True (drop k s) \<noteq> None)"
      unfolding TDoubleStar by (simp only: list.map item_of.simps match_here_Star)
    also have "\<dots> \<longleftrightarrow> (\<exists>k\<le>length s. matches_tokens ts (drop k s))"
      by (simp only: all IH simp_thms)
    also have "\<dots> \<longleftrightarrow> matches_tokens (t # ts) s"
      unfolding TDoubleStar by (simp only: matches_tokens.simps bound)
    finally show ?thesis .
  next
    case TStar
    have all: "(\<forall>c \<in> set (take k s). atom_matches NotSlash c) \<longleftrightarrow> CHR ''/'' \<notin> set (take k s)" for k
      by auto
    have "match_here (map item_of (t # ts)) True s \<noteq> None \<longleftrightarrow>
          (\<exists>k\<le>length s. (\<forall>c \<in> set (take k s). atom_matches NotSlash c) \<and>
             match_here (map item_of ts) True (drop k s) \<noteq> None)"
      unfolding TStar by (simp only: list.map item_of.simps match_here_Star)
    also have "\<dots> \<longleftrightarrow> (\<exists>k\<le>length s. CHR ''/'' \<notin> set (take k s) \<and> matches_tokens ts (drop k s))"
      by (simp only: all IH)
    also have "\<dots> \<longleftrightarrow> matches_tokens (t # ts) s"
      unfolding TStar by (simp only: matches_tokens.simps bound)
    finally show ?thesis .
  next
    case TQuestion
    show ?thesis
    proof (cases s)
      case Nil
      with TQuestion show ?thesis by simp
    next
      case (Cons x s')
      with Cons.prems \<open>no_line_terminator s\<close> have "atom_matches AnyChar x" "no_line_terminator s'"
        by (simp_all add: no_line_terminator_def)
      with TQuestion Cons Cons.IH [of s'] show ?thesis by simp
    qed
  next
    case TDot
    show ?thesis
    proof (cases s)
      case Nil
      with TDot show ?thesis by simp
    next
      case (Cons x s')
      with \<open>no_line_terminator s\<close> have "no_line_terminator s'"
        by (simp add: no_line_terminator_def)
      with TDot Cons Cons.IH [of s'] show ?thesis by simp
    qed
  next
    case (TLit c)
    show ?thesis
    proof (cases s)
      case Nil
      with TLit show ?thesis by simp
    next
      case (Cons x s')
      with \<open>no_line_terminator s\<close> have "no_line_terminator s'"
        by (simp add: no_line_terminator_def)
      with TLit Cons Cons.IH [of s'] show ?thesis by simp
    qed
  qed
qed

lemma agrees_fragment: "agrees RegExp_fragment"
  by (simp add: agrees_def RegExp_fragment_def)

text \<open>
  Where \<open>matchPattern\<close> is the glob matcher of the specification.  Let the
  regular expressions of the platform be those of the fragment on the fragment.
  For every glob pattern whose characters other than \<open>.\<close>, \<open>*\<close> and \<open>?\<close>
  are not syntax characters of regular expressions and that does not contain
  \<open>__DOUBLE_STAR\<close> (the placeholder without its last two characters), and for
  every path without a line terminator, \<open>matchPattern\<close> returns whether the
  whole path matches the pattern, where the dot is a literal dot, \<open>**\<close>
  matches any sequence of characters, separators included, \<open>*\<close> any sequence
  without a separator, and \<open>?\<close> exactly one character.
\<close>

lemma matchPattern_glob:
  assumes "agrees RegExp" and "plain_pattern pattern" and "\<not> includes_str pattern ''__DOUBLE_STAR''"
    and "no_line_terminator filepath"
  shows "matchPattern RegExp filepath pattern = Inr (glob_match pattern filepath)"
proof -
  let ?re = "\<lparr>from_start = True, body = map item_of (tokens pattern), to_end = True\<rparr>"
  have "RegExp_new (''^'' @ regexPattern pattern @ ''$'') = Some ?re"
    using RegExp_new_render [OF tokens_plain [OF assms(2)]]
    by (simp add: regexPattern_tokens [OF assms(3)])
  with assms(1) have "RegExp (''^'' @ regexPattern pattern @ ''$'') = Inr (test ?re)"
    unfolding agrees_def by blast
  moreover have "test ?re filepath = glob_match pattern filepath"
    using match_here_tokens [OF assms(4), of "tokens pattern"]
    by (simp add: test_def glob_match_def)
  ultimately show ?thesis
    by (simp add: matchPattern_def)
qed

lemmas eval_glob_match = glob_match_def tok_def plain_pattern_def no_line_terminator_def

lemma matchPattern_glob_example:
  "agrees RegExp_fragment \<and> plain_pattern ''src/**/*.js'' \<and>
   \<not> includes_str ''src/**/*.js'' ''__DOUBLE_STAR'' \<and> no_line_terminator ''src/a/b.js'' \<and>
   matchPattern RegExp_fragment ''src/a/b.js'' ''src/**/*.js'' = Inr True \<and>
   matchPattern RegExp_fragment ''src/b.js'' ''src/**/*.js'' = Inr False"
proof -
  have hyps: "plain_pattern ''src/**/*.js''" "\<not> includes_str ''src/**/*.js'' ''__DOUBLE_STAR''"
    "no_line_terminator ''src/a/b.js''" "no_line_terminator ''src/b.js''"
    by (simp_all add: eval_glob_match backslash_def)
  have "glob_match ''src/**/*.js'' ''src/a/b.js''" "\<not> glob_match ''src/**/*.js'' ''src/b.js''"
    by (simp_all add: eval_glob_match del: set_upt)
  with matchPattern_glob [OF agrees_fragment hyps(1) hyps(2) hyps(3)]
    matchPattern_glob [OF agrees_fragment hyps(1) hyps(2) hyps(4)]
  show ?thesis
    using agrees_fragment hyps by simp
qed

text \<open>
  C3. \<open>matchPattern\<close> is not that matcher for every pattern.  It escapes the
  dot and no other syntax character of regular expressions (\<open>escapeRegExp\<close>,
  which \<open>edit\<close> uses, escapes them all), so the plus of the pattern \<open>a+b\<close>
  reaches \<open>RegExp\<close> as a quantifier: the path \<open>a+b\<close>, which the pattern
  spells character by character, does not match, and the path \<open>aab\<close> does.
\<close>

theorem matchPattern_unescaped_plus:
  "regexPattern ''a+b'' = ''a+b'' \<and>
   glob_match ''a+b'' ''a+b'' \<and>
   matchPattern RegExp_fragment ''a+b'' ''a+b'' = Inr False \<and>
   \<not> glob_match ''a+b'' ''aab'' \<and>
   matchPattern RegExp_fragment ''aab'' ''a+b'' = Inr True"
  by (simp add: eval_glob_match matchPattern_def regexPattern_def eval_regexp del: set_upt)

text \<open>
  Two more inputs on which the code and the specification differ.  The dot of a
  regular expression matches no line terminator, so \<open>**\<close> does not match a
  path with a newline in it; and a pattern that spells the placeholder is turned
  into \<open>.*\<close>, so the pattern \<open>__DOUBLE_STAR__\<close>, which has no wildcard,
  matches the path \<open>x/y\<close>.
\<close>

lemma matchPattern_newline_placeholder:
  "glob_match ''**'' (''a'' @ [CHR 0x0A] @ ''b'') \<and>
   matchPattern RegExp_fragment (''a'' @ [CHR 0x0A] @ ''b'') ''**'' = Inr False \<and>
   \<not> glob_match ''__DOUBLE_STAR__'' ''x/y'' \<and>
   matchPattern RegExp_fragment ''x/y'' ''__DOUBLE_STAR__'' = Inr True"
  by (simp add: eval_glob_match matchPattern_def regexPattern_def eval_regexp del: set_upt)

end
